theory Spec2Isabelle
  imports Complex_Main "HOL-Library.Word"
begin

section \<open>Conventions of the embedding\<close>

text \<open>
  The cutout pipeline of \<^verbatim>\<open>processLC.cpp\<close> and the vector helpers of \<^verbatim>\<open>util.cpp\<close> are
  embedded as HOL functions.

  \<^item> A \<^verbatim>\<open>float\<close> (\<^verbatim>\<open>POSVEL_T\<close>) is idealised as a \<^typ>\<open>real\<close>: arithmetic is exact, and
    \<^verbatim>\<open>sqrt\<close>, \<^verbatim>\<open>acos\<close>, \<^verbatim>\<open>atan\<close>, \<^verbatim>\<open>sin\<close>, \<^verbatim>\<open>cos\<close> are the real functions.  A division
    whose IEEE result is not a finite number (zero divisor) is reported as the value
    \<open>Inl NotFinite\<close> where a function of the source performs it unguarded.  The last
    section gives the rotation set-up with the rounding of the machine arithmetic
    (functions with the suffix \<open>_sp\<close>).
  \<^item> A \<^verbatim>\<open>std::vector<T>\<close> that is only appended to and read in range is a list.  The two
    vectors \<^verbatim>\<open>np_count\<close> and \<^verbatim>\<open>np_offset\<close>, which the source clears and then indexes, carry
    their allocated storage and their logical size separately (type \<open>int_vec\<close> below).
  \<^item> \<^verbatim>\<open>int\<close> and \<^verbatim>\<open>int32_t\<close> are \<^typ>\<open>32 word\<close>, read as signed numbers with \<^const>\<open>sint\<close>;
    \<^verbatim>\<open>ID_T\<close> is \<^typ>\<open>64 word\<close>; \<^verbatim>\<open>MPI_Offset\<close> and \<^verbatim>\<open>size_t\<close> are \<^typ>\<open>64 word\<close>.
  \<^item> \<^verbatim>\<open>MPI_Abort\<close>, an uncaught \<^verbatim>\<open>throw\<close> and an access outside the allocated storage end
    the run: they are the \<open>Inl\<close> results of type \<open>error + 'a\<close>.  An MPI call that is given
    an invalid argument returns an error code, which the source ignores; the embedding
    stops there with \<open>Inl MPIError\<close>.
  \<^item> Loop counters over a partition and the lengths of vectors are natural numbers: a
    partition has fewer than \<open>2 ^ 31\<close> records, so that the \<^verbatim>\<open>int\<close> counter of the filter loop
    does not overflow.  The columns of a partition have \<open>Np\<close> entries after the \<^verbatim>\<open>resize\<close> that
    follows the read, so that the filter loop reads them in range.
\<close>

datatype error = SizeMismatch | DimMismatch | OutOfRange | NotFinite | DirNonEmpty | MPIError

text \<open>Sequencing of fallible steps: the first failure ends the computation.\<close>

definition ebind :: "error + 'a \<Rightarrow> ('a \<Rightarrow> error + 'b) \<Rightarrow> error + 'b" where
  "ebind m f = (case m of Inl e \<Rightarrow> Inl e | Inr v \<Rightarrow> f v)"

section \<open>Vector and matrix helpers (util.cpp)\<close>

text \<open>
  \<^verbatim>\<open>std::inner_product(first1, last1, first2, init)\<close>: the accumulator starts at \<open>init\<close> and
  takes the products from left to right.
\<close>

definition inner_product :: "real list \<Rightarrow> real list \<Rightarrow> real \<Rightarrow> real" where
  "inner_product xs ys init = foldl (\<lambda>acc (a, b). acc + a * b) init (zip xs ys)"

text \<open>\<^verbatim>\<open>scalarMultiply\<close> (util.cpp 384): \<open>cols\<close> is the length of row 0.\<close>

definition scalarMultiply :: "real list list \<Rightarrow> real \<Rightarrow> error + real list list" where
  "scalarMultiply matrix scalar =
     (if matrix = [] then Inl OutOfRange
      else let rows = length matrix; cols = length (matrix ! 0)
           in if list_all (\<lambda>row. cols \<le> length row) matrix
              then Inr (map (\<lambda>n. map (\<lambda>m. matrix ! n ! m * scalar) [0..<cols]) [0..<rows])
              else Inl OutOfRange)"

text \<open>
  \<^verbatim>\<open>squareMat\<close> (util.cpp 407): entry \<open>(n, m)\<close> accumulates \<open>matrix[n][y] * matrix[y][m]\<close> for
  \<open>y < rows\<close>, starting from the zero of the freshly built answer.
\<close>

definition squareMat :: "real list list \<Rightarrow> error + real list list" where
  "squareMat matrix =
     (if matrix = [] then Inl OutOfRange
      else let rows = length matrix; cols = length (matrix ! 0)
           in if list_all (\<lambda>row. cols \<le> length row \<and> rows \<le> length row) matrix
              then Inr (map (\<lambda>n. map (\<lambda>m.
                     foldl (\<lambda>acc y. acc + matrix ! n ! y * matrix ! y ! m) 0 [0..<rows])
                     [0..<cols]) [0..<rows])
              else Inl OutOfRange)"

text \<open>
  \<^verbatim>\<open>matVecMul\<close> (util.cpp 430): aborts unless the vector has as many entries as the matrix
  has rows; entry \<open>n\<close> accumulates \<open>matrix[n][m] * vec[m]\<close> for \<open>m < cols\<close>.
\<close>

definition matVecMul :: "real list list \<Rightarrow> real list \<Rightarrow> error + real list" where
  "matVecMul matrix vec =
     (if matrix = [] then Inl OutOfRange
      else let vecSize = length vec; rows = length matrix; cols = length (matrix ! 0)
           in if vecSize \<noteq> rows then Inl DimMismatch
              else if list_all (\<lambda>row. cols \<le> length row) matrix \<and> cols \<le> vecSize
              then Inr (map (\<lambda>n. foldl (\<lambda>acc m. acc + matrix ! n ! m * vec ! m) 0 [0..<cols])
                            [0..<rows])
              else Inl OutOfRange)"

text \<open>
  \<^verbatim>\<open>vecPairAngle\<close> (util.cpp 459): \<open>acos\<close> of the normalised dot product, in exact
  arithmetic.  The second vector is read over the length of the first.  With a zero
  magnitude the quotient is not a finite float and the angle is a NaN, with which the
  source goes on (every comparison with an angle derived from it is false); here that
  case is the result \<open>Inl NotFinite\<close>.  The rounding of the quotient, which decides the
  angle of a halo close to the pole, is that of \<open>vecPairAngle_sp\<close> in the last section.
\<close>

definition vecPairAngle :: "real list \<Rightarrow> real list \<Rightarrow> error + real" where
  "vecPairAngle v1 v2 =
     (if length v2 < length v1 then Inl OutOfRange
      else let v1dv2 = inner_product v1 v2 0;
               mag_v1 = sqrt (inner_product v1 v1 0);
               mag_v2 = sqrt (inner_product v2 v2 0)
           in if mag_v1 * mag_v2 = 0 then Inl NotFinite
              else Inr (arccos (v1dv2 / (mag_v1 * mag_v2))))"

text \<open>\<^verbatim>\<open>dot\<close> (util.cpp 481).\<close>

definition dot :: "real list \<Rightarrow> real list \<Rightarrow> error + real" where
  "dot v1 v2 =
     (if length v1 \<noteq> length v2 then Inl SizeMismatch
      else Inr (foldl (\<lambda>d i. d + v1 ! i * v2 ! i) 0 [0..<length v1]))"

text \<open>
  \<^verbatim>\<open>cross\<close> (util.cpp 505): after the size check the first three entries of both vectors
  are read; the result is what is pushed onto the (empty) output vector.
\<close>

definition cross :: "real list \<Rightarrow> real list \<Rightarrow> error + real list" where
  "cross v1 v2 =
     (if length v1 \<noteq> length v2 then Inl SizeMismatch
      else if length v1 < 3 then Inl OutOfRange
      else Inr [v1 ! 1 * v2 ! 2 - v1 ! 2 * v2 ! 1,
                - (v1 ! 0 * v2 ! 2 - v1 ! 2 * v2 ! 0),
                v1 ! 0 * v2 ! 1 - v1 ! 1 * v2 ! 0])"

text \<open>
  \<^verbatim>\<open>normCross\<close> (util.cpp 531): the cross product divided by its magnitude, and the zero
  vector when that magnitude is zero.  The loop runs over the length of \<open>a\<close> and reads the
  three-entry cross product.
\<close>

definition normCross :: "real list \<Rightarrow> real list \<Rightarrow> error + real list" where
  "normCross a b =
     (if length a \<noteq> length b then Inl SizeMismatch
      else ebind (cross a b) (\<lambda>axb.
        let mag_axb = sqrt (inner_product axb axb 0)
        in if mag_axb \<noteq> 0 \<and> 3 < length a then Inl OutOfRange
           else Inr (map (\<lambda>i. if mag_axb = 0 then 0 else axb ! i / mag_axb) [0..<length a])))"

text \<open>\<^verbatim>\<open>cross_prod_matrix\<close> (util.cpp 662): the matrix \<open>K\<close> of the axis \<open>k\<close>.\<close>

definition cross_prod_matrix :: "real list \<Rightarrow> error + real list list" where
  "cross_prod_matrix k =
     (if length k < 3 then Inl OutOfRange
      else Inr [[0, - (k ! 2), k ! 1],
                [k ! 2, 0, - (k ! 0)],
                [- (k ! 1), k ! 0, 0]])"

text \<open>
  \<^verbatim>\<open>rotation_matrix\<close> (util.cpp 687): \<open>R = I + sin B * K + (1 - cos B) * K\<^sup>2\<close>, written out
  entry by entry from the 3 x 3 blocks of \<open>Ksin\<close> and \<open>K2cos\<close>.
\<close>

definition rotation_matrix :: "real list list \<Rightarrow> real \<Rightarrow> error + real list list" where
  "rotation_matrix K B =
     ebind (squareMat K) (\<lambda>K2.
     ebind (scalarMultiply K (sin B)) (\<lambda>Ksin.
     ebind (scalarMultiply K2 (1 - cos B)) (\<lambda>K2cos.
       if length Ksin < 3 \<or> length K2cos < 3 \<or> length (Ksin ! 0) < 3 then Inl OutOfRange
       else Inr
         [[1 + Ksin ! 0 ! 0 + K2cos ! 0 ! 0, Ksin ! 0 ! 1 + K2cos ! 0 ! 1, Ksin ! 0 ! 2 + K2cos ! 0 ! 2],
          [Ksin ! 1 ! 0 + K2cos ! 1 ! 0, 1 + Ksin ! 1 ! 1 + K2cos ! 1 ! 1, Ksin ! 1 ! 2 + K2cos ! 1 ! 2],
          [Ksin ! 2 ! 0 + K2cos ! 2 ! 0, Ksin ! 2 ! 1 + K2cos ! 2 ! 1, 1 + Ksin ! 2 ! 2 + K2cos ! 2 ! 2]])))"

text \<open>
  Modelled from the spec: \<^verbatim>\<open>rotate(k, B, v, v_rot)\<close>, which \<^verbatim>\<open>processLC\<close> calls and whose body
  is not among the sources.  The spec gives \<open>v' = v cos B + (k \<times> v) sin B + k (k \<sqdot> v) (1 - cos B)\<close>.
\<close>

definition rotate_vec :: "real list \<Rightarrow> real \<Rightarrow> real list \<Rightarrow> error + real list" where
  "rotate_vec k B v =
     ebind (cross k v) (\<lambda>kxv.
     ebind (dot k v) (\<lambda>kdv.
       Inr (map (\<lambda>i. v ! i * cos B + kxv ! i * sin B + k ! i * kdv * (1 - cos B)) [0..<3])))"

text \<open>
  The rotation set-up of the halo variant of \<^verbatim>\<open>processLC\<close> (processLC.cpp 506-521): the
  distance of the halo, the pole \<open>(halo_r, 0, 0)\<close>, the axis and the angle.
\<close>

definition halo_r_of :: "real list \<Rightarrow> real" where
  "halo_r_of halo_pos =
     sqrt (halo_pos ! 0 * halo_pos ! 0 + halo_pos ! 1 * halo_pos ! 1 + halo_pos ! 2 * halo_pos ! 2)"

definition rotated_pos_of :: "real list \<Rightarrow> real list" where
  "rotated_pos_of halo_pos = [halo_r_of halo_pos, 0, 0]"

definition halo_axis :: "real list \<Rightarrow> error + real list" where
  "halo_axis halo_pos = normCross halo_pos (rotated_pos_of halo_pos)"

definition halo_angle :: "real list \<Rightarrow> error + real" where
  "halo_angle halo_pos = vecPairAngle halo_pos (rotated_pos_of halo_pos)"

text \<open>
  The Rodrigues matrix of the halo as \<^verbatim>\<open>cross_prod_matrix\<close> and \<^verbatim>\<open>rotation_matrix\<close> build it
  from the axis and the angle, and its application to a vector by \<^verbatim>\<open>matVecMul\<close>.  The three
  functions are those of util.cpp; \<^verbatim>\<open>processLC\<close> itself does not call them, it rotates
  with \<^verbatim>\<open>rotate\<close>.  For a unit axis the two agree (\<open>rotate_vec_unit\<close>); for the zero axis
  the matrix is the identity whereas \<^verbatim>\<open>rotate\<close> multiplies the vector by \<open>cos B\<close>.
\<close>

definition halo_rotation_matrix :: "real list \<Rightarrow> error + real list list" where
  "halo_rotation_matrix halo_pos =
     ebind (halo_axis halo_pos) (\<lambda>k.
     ebind (halo_angle halo_pos) (\<lambda>B.
     ebind (cross_prod_matrix k) (\<lambda>K. rotation_matrix K B)))"

definition halo_rotate_by_matrix :: "real list \<Rightarrow> real list \<Rightarrow> error + real list" where
  "halo_rotate_by_matrix halo_pos v = ebind (halo_rotation_matrix halo_pos) (\<lambda>R. matVecMul R v)"

text \<open>The Euclidean length of a three-vector, as the source computes it.\<close>

definition mag3 :: "real list \<Rightarrow> real" where
  "mag3 v = sqrt (v ! 0 * v ! 0 + v ! 1 * v ! 1 + v ! 2 * v ! 2)"

section \<open>Evaluation of the helpers on three-vectors\<close>

lemma ebind_Inr [simp]: "ebind (Inr v) f = f v"
  by (simp add: ebind_def)

lemma ebind_Inl [simp]: "ebind (Inl e) f = Inl e"
  by (simp add: ebind_def)

lemma upt_3: "[0..<3] = [0, Suc 0, 2]"
  by (simp add: upt_rec numeral_3_eq_3)

lemma nth_2_Cons3 [simp]: "[a, b, c] ! 2 = c"
  by (simp add: numeral_2_eq_2)

lemma inner_product_3 [simp]:
  "inner_product [a1, a2, a3] [b1, b2, b3] i = i + a1 * b1 + a2 * b2 + a3 * b3"
  by (simp add: inner_product_def)

lemma cross_3 [simp]:
  "cross [a1, a2, a3] [b1, b2, b3] = Inr [a2 * b3 - a3 * b2, - (a1 * b3 - a3 * b1), a1 * b2 - a2 * b1]"
  by (simp add: cross_def)

lemma dot_3 [simp]: "dot [a1, a2, a3] [b1, b2, b3] = Inr (a1 * b1 + a2 * b2 + a3 * b3)"
  by (simp add: dot_def upt_3)

lemma cross_prod_matrix_3 [simp]:
  "cross_prod_matrix [k1, k2, k3] = Inr [[0, - k3, k2], [k3, 0, - k1], [- k2, k1, 0]]"
  by (simp add: cross_prod_matrix_def)

lemma scalarMultiply_3 [simp]:
  "scalarMultiply [[a, b, c], [d, e, f], [g, h, i]] s =
     Inr [[a * s, b * s, c * s], [d * s, e * s, f * s], [g * s, h * s, i * s]]"
  by (simp add: scalarMultiply_def upt_3)

lemma squareMat_3 [simp]:
  "squareMat [[a, b, c], [d, e, f], [g, h, i]] =
     Inr [[a * a + b * d + c * g, a * b + b * e + c * h, a * c + b * f + c * i],
          [d * a + e * d + f * g, d * b + e * e + f * h, d * c + e * f + f * i],
          [g * a + h * d + i * g, g * b + h * e + i * h, g * c + h * f + i * i]]"
  by (simp add: squareMat_def upt_3)

lemma matVecMul_3 [simp]:
  "matVecMul [[a, b, c], [d, e, f], [g, h, i]] [v1, v2, v3] =
     Inr [a * v1 + b * v2 + c * v3, d * v1 + e * v2 + f * v3, g * v1 + h * v2 + i * v3]"
  by (simp add: matVecMul_def upt_3)

lemma rotation_matrix_K:
  "rotation_matrix [[0, - k3, k2], [k3, 0, - k1], [- k2, k1, 0]] B =
     Inr [[1 + (1 - cos B) * (- (k3 * k3) - k2 * k2),
           sin B * (- k3) + (1 - cos B) * (k1 * k2),
           sin B * k2 + (1 - cos B) * (k1 * k3)],
          [sin B * k3 + (1 - cos B) * (k1 * k2),
           1 + (1 - cos B) * (- (k3 * k3) - k1 * k1),
           sin B * (- k1) + (1 - cos B) * (k2 * k3)],
          [sin B * (- k2) + (1 - cos B) * (k1 * k3),
           sin B * k1 + (1 - cos B) * (k2 * k3),
           1 + (1 - cos B) * (- (k2 * k2) - k1 * k1)]]"
  by (simp add: rotation_matrix_def algebra_simps)

lemma normCross_3:
  "normCross [a1, a2, a3] [b1, b2, b3] =
     Inr (let c1 = a2 * b3 - a3 * b2; c2 = - (a1 * b3 - a3 * b1); c3 = a1 * b2 - a2 * b1;
              m = sqrt (c1 * c1 + c2 * c2 + c3 * c3)
          in [if m = 0 then 0 else c1 / m, if m = 0 then 0 else c2 / m, if m = 0 then 0 else c3 / m])"
  by (simp add: normCross_def upt_3 Let_def)

lemma rot_unit_norm:
  fixes s c :: real
  assumes "s\<^sup>2 + c\<^sup>2 = 1" "k1 * k1 + k2 * k2 + k3 * k3 = 1"
  shows "((1 + (1 - c) * (- (k3 * k3) - k2 * k2)) * v1 + (s * (- k3) + (1 - c) * (k1 * k2)) * v2 + (s * k2 + (1 - c) * (k1 * k3)) * v3) *
         ((1 + (1 - c) * (- (k3 * k3) - k2 * k2)) * v1 + (s * (- k3) + (1 - c) * (k1 * k2)) * v2 + (s * k2 + (1 - c) * (k1 * k3)) * v3)
 + ((s * k3 + (1 - c) * (k1 * k2)) * v1 + (1 + (1 - c) * (- (k3 * k3) - k1 * k1)) * v2 + (s * (- k1) + (1 - c) * (k2 * k3)) * v3) *
   ((s * k3 + (1 - c) * (k1 * k2)) * v1 + (1 + (1 - c) * (- (k3 * k3) - k1 * k1)) * v2 + (s * (- k1) + (1 - c) * (k2 * k3)) * v3)
 + ((s * (- k2) + (1 - c) * (k1 * k3)) * v1 + (s * k1 + (1 - c) * (k2 * k3)) * v2 + (1 + (1 - c) * (- (k2 * k2) - k1 * k1)) * v3) *
   ((s * (- k2) + (1 - c) * (k1 * k3)) * v1 + (s * k1 + (1 - c) * (k2 * k3)) * v2 + (1 + (1 - c) * (- (k2 * k2) - k1 * k1)) * v3)
  = v1 * v1 + v2 * v2 + v3 * v3"
  using assms by algebra

lemma rotation_norm:
  assumes "k1 * k1 + k2 * k2 + k3 * k3 = 1 \<or> (k1 = 0 \<and> k2 = 0 \<and> k3 = 0)"
  shows "\<exists>R w. rotation_matrix [[0, - k3, k2], [k3, 0, - k1], [- k2, k1, 0]] B = Inr R \<and>
           matVecMul R [v1, v2, v3] = Inr w \<and> length w = 3 \<and> mag3 w = mag3 [v1, v2, v3]"
proof -
  have sc: "(sin B)\<^sup>2 + (cos B)\<^sup>2 = 1" by simp
  from assms show ?thesis
  proof
    assume u: "k1 * k1 + k2 * k2 + k3 * k3 = 1"
    show ?thesis
      unfolding rotation_matrix_K matVecMul_3 mag3_def
      using rot_unit_norm [OF sc u, of v1 v2 v3] by simp
  next
    assume "k1 = 0 \<and> k2 = 0 \<and> k3 = 0"
    then show ?thesis using rotation_matrix_K [of 0 0 0 B] by (simp add: mag3_def)
  qed
qed

lemma sq_sum_zero_iff: "(a * a + b * b + c * c = 0) = (a = 0 \<and> b = 0 \<and> c = (0::real))"
  by (metis add_nonneg_eq_0_iff add_nonneg_nonneg mult_eq_0_iff zero_le_square)

lemma axis_unit_or_zero:
  fixes c1 c2 c3 :: real
  defines "m \<equiv> sqrt (c1 * c1 + c2 * c2 + c3 * c3)"
  assumes "m \<noteq> 0"
  shows "c1 / m * (c1 / m) + c2 / m * (c2 / m) + c3 / m * (c3 / m) = 1"
proof -
  have nn: "0 \<le> c1 * c1 + c2 * c2 + c3 * c3" by simp
  have m2: "m * m = c1 * c1 + c2 * c2 + c3 * c3"
    unfolding m_def using nn by (simp only: real_sqrt_mult_self abs_of_nonneg)
  have "c1 / m * (c1 / m) + c2 / m * (c2 / m) + c3 / m * (c3 / m) = (c1 * c1 + c2 * c2 + c3 * c3) / (m * m)"
    by (simp add: add_divide_distrib)
  also have "\<dots> = 1" using m2 assms(2) by (metis divide_self_if mult_eq_0_iff)
  finally show ?thesis .
qed

lemma halo_r_nonneg: "0 \<le> halo_r_of p"
  by (simp add: halo_r_of_def)

lemma halo_r_mult: "halo_r_of [p1, p2, p3] * halo_r_of [p1, p2, p3] = p1 * p1 + p2 * p2 + p3 * p3"
proof -
  have "0 \<le> p1 * p1 + p2 * p2 + p3 * p3" by simp
  then show ?thesis unfolding halo_r_of_def by (simp only: nth_Cons_0 nth_Cons_Suc nth_2_Cons3 One_nat_def real_sqrt_mult_self abs_of_nonneg)
qed

lemma halo_r_zero_iff: "halo_r_of [p1, p2, p3] = 0 \<longleftrightarrow> p1 = 0 \<and> p2 = 0 \<and> p3 = 0"
  by (simp add: halo_r_of_def sq_sum_zero_iff)

lemma halo_angle_3:
  assumes "p1 \<noteq> 0 \<or> p2 \<noteq> 0 \<or> p3 \<noteq> 0"
  shows "halo_angle [p1, p2, p3] = Inr (arccos (p1 / halo_r_of [p1, p2, p3]))"
proof -
  let ?r = "halo_r_of [p1, p2, p3]"
  have r0: "?r \<noteq> 0" using assms halo_r_zero_iff by blast
  have m1: "sqrt (p1 * p1 + p2 * p2 + p3 * p3) = ?r" by (simp add: halo_r_of_def)
  have m2: "\<bar>?r\<bar> = ?r" using halo_r_nonneg [of "[p1, p2, p3]"] by simp
  show ?thesis
    unfolding halo_angle_def rotated_pos_of_def vecPairAngle_def
    using r0 by (simp add: m1 m2 Let_def)
qed

lemma halo_axis_3:
  "halo_axis [p1, p2, p3] =
     Inr [if sqrt (0 * 0 + p3 * halo_r_of [p1, p2, p3] * (p3 * halo_r_of [p1, p2, p3])
                 + - (p2 * halo_r_of [p1, p2, p3]) * - (p2 * halo_r_of [p1, p2, p3])) = 0 then 0
          else 0 / sqrt (0 * 0 + p3 * halo_r_of [p1, p2, p3] * (p3 * halo_r_of [p1, p2, p3])
                 + - (p2 * halo_r_of [p1, p2, p3]) * - (p2 * halo_r_of [p1, p2, p3])),
          if sqrt (0 * 0 + p3 * halo_r_of [p1, p2, p3] * (p3 * halo_r_of [p1, p2, p3])
                 + - (p2 * halo_r_of [p1, p2, p3]) * - (p2 * halo_r_of [p1, p2, p3])) = 0 then 0
          else p3 * halo_r_of [p1, p2, p3] /
               sqrt (0 * 0 + p3 * halo_r_of [p1, p2, p3] * (p3 * halo_r_of [p1, p2, p3])
                 + - (p2 * halo_r_of [p1, p2, p3]) * - (p2 * halo_r_of [p1, p2, p3])),
          if sqrt (0 * 0 + p3 * halo_r_of [p1, p2, p3] * (p3 * halo_r_of [p1, p2, p3])
                 + - (p2 * halo_r_of [p1, p2, p3]) * - (p2 * halo_r_of [p1, p2, p3])) = 0 then 0
          else - (p2 * halo_r_of [p1, p2, p3]) /
               sqrt (0 * 0 + p3 * halo_r_of [p1, p2, p3] * (p3 * halo_r_of [p1, p2, p3])
                 + - (p2 * halo_r_of [p1, p2, p3]) * - (p2 * halo_r_of [p1, p2, p3]))]"
  by (simp add: halo_axis_def rotated_pos_of_def normCross_3 Let_def)

lemma halo_axis_cases:
  "\<exists>k1 k2 k3. halo_axis [p1, p2, p3] = Inr [k1, k2, k3] \<and>
      (k1 * k1 + k2 * k2 + k3 * k3 = 1 \<or> (k1 = 0 \<and> k2 = 0 \<and> k3 = 0))"
proof -
  let ?r = "halo_r_of [p1, p2, p3]"
  let ?m = "sqrt (0 * 0 + p3 * ?r * (p3 * ?r) + - (p2 * ?r) * - (p2 * ?r))"
  note ax = halo_axis_3 [of p1 p2 p3]
  show ?thesis
  proof (cases "?m = 0")
    case True
    then show ?thesis unfolding ax by simp
  next
    case False
    from axis_unit_or_zero [OF False] show ?thesis unfolding ax using False by simp
  qed
qed

lemma halo_rotation_norm:
  assumes nz: "p1 \<noteq> 0 \<or> p2 \<noteq> 0 \<or> p3 \<noteq> 0"
  shows "\<exists>w. halo_rotate_by_matrix [p1, p2, p3] [v1, v2, v3] = Inr w \<and> length w = 3 \<and>
             mag3 w = mag3 [v1, v2, v3]"
proof -
  obtain k1 k2 k3 where ax: "halo_axis [p1, p2, p3] = Inr [k1, k2, k3]"
    and u: "k1 * k1 + k2 * k2 + k3 * k3 = 1 \<or> (k1 = 0 \<and> k2 = 0 \<and> k3 = 0)"
    using halo_axis_cases by blast
  obtain B where ang: "halo_angle [p1, p2, p3] = Inr B" using halo_angle_3 [OF nz] by blast
  from rotation_norm [OF u, of B v1 v2 v3] obtain R w where
    "rotation_matrix [[0, - k3, k2], [k3, 0, - k1], [- k2, k1, 0]] B = Inr R"
    "matVecMul R [v1, v2, v3] = Inr w" "length w = 3" "mag3 w = mag3 [v1, v2, v3]" by blast
  then show ?thesis
    by (simp add: halo_rotate_by_matrix_def halo_rotation_matrix_def ax ang)
qed

lemma rodrigues_rows:
  fixes r n :: real
  assumes "n \<noteq> 0" "r \<noteq> 0" "n * k2 = p3" "n * k3 = - p2" "r * c = p1" "r * s = n"
    "r * r = p1 * p1 + n * n" "n * n = p2 * p2 + p3 * p3"
  shows "(1 + (1 - c) * (- (k3 * k3) - k2 * k2)) * p1 + (s * (- k3) + (1 - c) * (0 * k2)) * p2 + (s * k2 + (1 - c) * (0 * k3)) * p3 = r"
    and "(s * k3 + (1 - c) * (0 * k2)) * p1 + (1 + (1 - c) * (- (k3 * k3) - 0 * 0)) * p2 + (s * (- 0) + (1 - c) * (k2 * k3)) * p3 = 0"
    and "(s * (- k2) + (1 - c) * (0 * k3)) * p1 + (s * 0 + (1 - c) * (k2 * k3)) * p2 + (1 + (1 - c) * (- (k2 * k2) - 0 * 0)) * p3 = 0"
  using assms by algebra+

lemma halo_rot_p:
  assumes nz: "p2 \<noteq> 0 \<or> p3 \<noteq> 0"
  shows "halo_rotate_by_matrix [p1, p2, p3] [p1, p2, p3] = Inr [halo_r_of [p1, p2, p3], 0, 0]"
proof -
  let ?r = "halo_r_of [p1, p2, p3]"
  define n where "n = sqrt (p2 * p2 + p3 * p3)"
  have "0 \<le> p2 * p2 + p3 * p3" by simp
  then have n2: "n * n = p2 * p2 + p3 * p3"
    unfolding n_def by (simp only: real_sqrt_mult_self abs_of_nonneg)
  have "p2 * p2 + p3 * p3 \<noteq> 0" using nz
    by (metis add_nonneg_eq_0_iff mult_eq_0_iff zero_le_square)
  then have npos: "0 < n" unfolding n_def by (simp add: less_le)
  have r0: "?r \<noteq> 0" using nz halo_r_zero_iff by blast
  then have rpos: "0 < ?r" using halo_r_nonneg [of "[p1, p2, p3]"] by simp
  have r2: "?r * ?r = p1 * p1 + n * n" by (simp add: halo_r_mult n2)
  have m: "sqrt (0 * 0 + p3 * ?r * (p3 * ?r) + - (p2 * ?r) * - (p2 * ?r)) = n * ?r"
  proof -
    have "0 * 0 + p3 * ?r * (p3 * ?r) + - (p2 * ?r) * - (p2 * ?r) = (n * ?r) * (n * ?r)"
      using n2 by algebra
    moreover have "0 \<le> n * ?r" using npos rpos by simp
    ultimately show ?thesis by (simp only: real_sqrt_abs2 abs_of_nonneg)
  qed
  have mnz: "n * ?r \<noteq> 0" using npos rpos by simp
  have ax: "halo_axis [p1, p2, p3] = Inr [0, p3 / n, - p2 / n]"
    unfolding halo_axis_3 m using mnz rpos by simp
  have ab: "\<bar>p1 / ?r\<bar> \<le> 1"
  proof -
    have "p1 * p1 \<le> ?r * ?r" using r2 by simp
    then have "\<bar>p1\<bar> \<le> \<bar>?r\<bar>" by (simp add: abs_le_square_iff power2_eq_square)
    then show ?thesis using rpos by simp
  qed
  have ang: "halo_angle [p1, p2, p3] = Inr (arccos (p1 / ?r))"
    using halo_angle_3 nz by blast
  have c: "?r * cos (arccos (p1 / ?r)) = p1" using ab r0 by (simp add: cos_arccos_abs)
  have "sin (arccos (p1 / ?r)) = sqrt (1 - (p1 / ?r)\<^sup>2)" using ab by (rule sin_arccos_abs)
  also have "1 - (p1 / ?r)\<^sup>2 = (n / ?r)\<^sup>2"
  proof -
    have "(?r * ?r - p1 * p1) / (?r * ?r) = (n * n) / (?r * ?r)" using r2 by simp
    then show ?thesis using r0 by (simp add: power2_eq_square diff_divide_distrib)
  qed
  also have "sqrt ((n / ?r)\<^sup>2) = n / ?r" using npos rpos by simp
  finally have s: "?r * sin (arccos (p1 / ?r)) = n" using r0 by simp
  have k2: "n * (p3 / n) = p3" and k3: "n * (- p2 / n) = - p2" using npos by simp_all
  note rows = rodrigues_rows [OF less_imp_neq [OF npos, symmetric] r0 k2 k3 c s r2 n2]
  show ?thesis
    unfolding halo_rotate_by_matrix_def halo_rotation_matrix_def ax ang ebind_Inr
      cross_prod_matrix_3 rotation_matrix_K matVecMul_3
    using rows by simp
qed

lemma rotate_vec_antiparallel: "rotate_vec [0, 0, 0] pi [- 1, 0, 0] = Inr [1, 0, 0]"
  by (simp add: rotate_vec_def upt_3)

lemma rotate_vec_identity: "rotate_vec [0, 0, 0] 0 [v1, v2, v3] = Inr [v1, v2, v3]"
  by (simp add: rotate_vec_def upt_3)

lemma halo_on_pole:
  assumes "0 < c"
  shows "halo_r_of [c, 0, 0] = c"
    and "halo_axis [c, 0, 0] = Inr [0, 0, 0]"
    and "halo_angle [c, 0, 0] = Inr 0"
proof -
  show r: "halo_r_of [c, 0, 0] = c" using assms by (simp add: halo_r_of_def)
  show "halo_axis [c, 0, 0] = Inr [0, 0, 0]"
    by (simp add: halo_axis_def rotated_pos_of_def r normCross_3)
  show "halo_angle [c, 0, 0] = Inr 0"
    using assms by (simp add: halo_angle_def rotated_pos_of_def r vecPairAngle_def)
qed

lemma halo_on_pole_matrix:
  assumes "0 < c"
  shows "halo_rotation_matrix [c, 0, 0] = Inr [[1, 0, 0], [0, 1, 0], [0, 0, 1]]"
  using rotation_matrix_K [of 0 0 0 0]
  by (simp add: halo_rotation_matrix_def halo_on_pole [OF assms])

section \<open>The rotation of the halo variant\<close>

text \<open>
  Claim C10.  When the halo position is a positive multiple of \<open>(1, 0, 0)\<close>, the axis computed
  by \<^verbatim>\<open>normCross\<close> is the zero vector, the angle computed by \<^verbatim>\<open>vecPairAngle\<close> is \<open>0\<close>, the
  matrix built by \<^verbatim>\<open>rotation_matrix\<close> is the identity, and applying it to any position
  vector returns that vector.
\<close>

theorem halo_on_pole_identity:
  "0 < c \<Longrightarrow>
     halo_axis [c, 0, 0] = Inr [0, 0, 0] \<and>
     halo_angle [c, 0, 0] = Inr 0 \<and>
     halo_rotation_matrix [c, 0, 0] = Inr [[1, 0, 0], [0, 1, 0], [0, 0, 1]] \<and>
     halo_rotate_by_matrix [c, 0, 0] [v1, v2, v3] = Inr [v1, v2, v3]"
  by (simp add: halo_on_pole halo_on_pole_matrix halo_rotate_by_matrix_def)

theorem halo_on_pole_identity_witness:
  "halo_axis [2, 0, 0] = Inr [0, 0, 0] \<and>
   halo_angle [2, 0, 0] = Inr 0 \<and>
   halo_rotation_matrix [2, 0, 0] = Inr [[1, 0, 0], [0, 1, 0], [0, 0, 1]] \<and>
   halo_rotate_by_matrix [2, 0, 0] [1, 2, 3] = Inr [1, 2, 3]"
  using halo_on_pole_identity [of 2 1 2 3] by simp

section \<open>The cutout filter (processLC.cpp)\<close>

text \<open>
  Modelled from the spec: the constants \<^verbatim>\<open>PI\<close> and \<^verbatim>\<open>ARCSEC\<close> of \<^verbatim>\<open>processLC.h\<close>, which is
  not among the sources.  The spec gives \<open>ARCSEC = 3600\<close> and writes \<open>\<pi>\<close> for \<^verbatim>\<open>PI\<close>.
\<close>

definition PI :: real where
  "PI = pi"

definition ARCSEC :: real where
  "ARCSEC = 3600"

text \<open>\<^verbatim>\<open>struct Buffers_read\<close> (processLC.cpp 8): one vector per column of the input.\<close>

record Buffers_read =
  r_x :: "real list"
  r_y :: "real list"
  r_z :: "real list"
  r_vx :: "real list"
  r_vy :: "real list"
  r_vz :: "real list"
  r_a :: "real list"
  r_id :: "64 word list"
  r_step :: "32 word list"
  r_rotation :: "32 word list"
  r_replication :: "32 word list"

text \<open>
  A \<^verbatim>\<open>vector<int>\<close> with its allocated storage (one entry per unit of capacity) and its
  logical size.
\<close>

record int_vec =
  storage :: "32 word list"
  vsize :: nat

text \<open>\<^verbatim>\<open>struct Buffers_write\<close> (processLC.cpp 24).\<close>

record Buffers_write =
  w_x :: "real list"
  w_y :: "real list"
  w_z :: "real list"
  w_vx :: "real list"
  w_vy :: "real list"
  w_vz :: "real list"
  w_a :: "real list"
  w_id :: "64 word list"
  w_step :: "32 word list"
  w_rotation :: "32 word list"
  w_replication :: "32 word list"
  w_theta :: "real list"
  w_phi :: "real list"
  np_count :: int_vec
  np_offset :: int_vec

text \<open>
  \<^verbatim>\<open>atan(num / den)\<close> on floats.  A non-zero number over zero is an infinity, whose \<^verbatim>\<open>atan\<close>
  is a quarter turn with the sign of the numerator (a zero denominator is taken as \<open>+0\<close>);
  \<open>0 / 0\<close> is a NaN, the result \<open>None\<close>.
\<close>

definition atan_quot :: "real \<Rightarrow> real \<Rightarrow> real option" where
  "atan_quot num den =
     (if den = 0 then
        (if num = 0 then None else if 0 < num then Some (pi / 2) else Some (- (pi / 2)))
      else Some (arctan (num / den)))"

text \<open>
  The spherical transformation (processLC.cpp 312-314 and 778-781).  The results are
  \<open>None\<close> where the float is a NaN.
\<close>

definition sph_theta :: "real \<Rightarrow> real \<Rightarrow> real \<Rightarrow> real option" where
  "sph_theta vx vy vz =
     (let r_halo = sqrt (vx * vx + vy * vy + vz * vz)
      in if r_halo = 0 then None else Some (arccos (vz / r_halo) * 180 / PI * ARCSEC))"

definition sph_phi :: "real \<Rightarrow> real \<Rightarrow> real option" where
  "sph_phi vx vy =
     (case atan_quot vy vx of
        None \<Rightarrow> None
      | Some t \<Rightarrow> Some (t * 180 / PI * ARCSEC))"

text \<open>The twelve \<^verbatim>\<open>push_back\<close> calls of a selected record (processLC.cpp 321-334).\<close>

definition push_back_record :: "Buffers_read \<Rightarrow> nat \<Rightarrow> real \<Rightarrow> real \<Rightarrow> Buffers_write \<Rightarrow> Buffers_write" where
  "push_back_record r n theta phi w =
     w\<lparr>w_theta := w_theta w @ [theta],
       w_phi := w_phi w @ [phi],
       w_x := w_x w @ [r_x r ! n],
       w_y := w_y w @ [r_y r ! n],
       w_z := w_z w @ [r_z r ! n],
       w_vx := w_vx w @ [r_vx r ! n],
       w_vy := w_vy w @ [r_vy r ! n],
       w_vz := w_vz w @ [r_vz r ! n],
       w_a := w_a w @ [r_a r ! n],
       w_id := w_id w @ [r_id r ! n],
       w_rotation := w_rotation w @ [r_rotation r ! n],
       w_replication := w_replication w @ [r_replication r ! n]\<rparr>"

text \<open>
  The comparison with the window and the pushes (processLC.cpp 317-335, 784-802).  A NaN
  angle fails every comparison.  The source reads the two cut vectors at the indices 0 and
  1 without a check; here a cut vector with fewer than two entries ends the run with
  \<open>OutOfRange\<close> as soon as a record passes the octant test.
\<close>

definition cut_and_push ::
  "Buffers_read \<Rightarrow> real list \<Rightarrow> real list \<Rightarrow> nat \<Rightarrow> real option \<Rightarrow> real option \<Rightarrow>
   Buffers_write \<Rightarrow> error + Buffers_write" where
  "cut_and_push r theta_cut phi_cut n theta_opt phi_opt w =
     (if length theta_cut < 2 \<or> length phi_cut < 2 then Inl OutOfRange
      else case (theta_opt, phi_opt) of
             (Some theta, Some phi) \<Rightarrow>
               if theta > theta_cut ! 0 \<and> theta < theta_cut ! 1 \<and>
                  phi > phi_cut ! 0 \<and> phi < phi_cut ! 1
               then Inr (push_back_record r n theta phi w)
               else Inr w
           | _ \<Rightarrow> Inr w)"

text \<open>The body of the filter loop of the fixed-window variant (processLC.cpp 306-337).\<close>

definition cut_fixed ::
  "Buffers_read \<Rightarrow> real list \<Rightarrow> real list \<Rightarrow> nat \<Rightarrow> Buffers_write \<Rightarrow> error + Buffers_write" where
  "cut_fixed r theta_cut phi_cut n w =
     (if r_x r ! n > 0 \<and> r_y r ! n > 0 \<and> r_z r ! n > 0 then
        cut_and_push r theta_cut phi_cut n
          (sph_theta (r_x r ! n) (r_y r ! n) (r_z r ! n))
          (sph_phi (r_x r ! n) (r_y r ! n)) w
      else Inr w)"

text \<open>
  The body of the filter loop of the halo variant (processLC.cpp 764-804): the position
  is rotated first and the angles are those of the rotated position.
\<close>

definition cut_halo ::
  "Buffers_read \<Rightarrow> real list \<Rightarrow> real \<Rightarrow> real list \<Rightarrow> real list \<Rightarrow> nat \<Rightarrow> Buffers_write \<Rightarrow>
   error + Buffers_write" where
  "cut_halo r k B theta_cut phi_cut n w =
     (if r_x r ! n > 0 \<and> r_y r ! n > 0 \<and> r_z r ! n > 0 then
        ebind (rotate_vec k B [r_x r ! n, r_y r ! n, r_z r ! n]) (\<lambda>v_rot.
          cut_and_push r theta_cut phi_cut n
            (sph_theta (v_rot ! 0) (v_rot ! 1) (v_rot ! 2))
            (sph_phi (v_rot ! 0) (v_rot ! 1)) w)
      else Inr w)"

text \<open>
  The loop \<^verbatim>\<open>for (int n=0; n<Np; ++n)\<close> around a body; an error of the body ends it.
\<close>

function cut_loop ::
  "(nat \<Rightarrow> Buffers_write \<Rightarrow> error + Buffers_write) \<Rightarrow> nat \<Rightarrow> nat \<Rightarrow> Buffers_write \<Rightarrow>
   error + Buffers_write" where
  "cut_loop body Np n w =
     (if n < Np then
        (case body n w of Inl e \<Rightarrow> Inl e | Inr w' \<Rightarrow> cut_loop body Np (Suc n) w')
      else Inr w)"
  by pat_completeness auto
termination
  by (relation "measure (\<lambda>(body, Np, n, w). Np - n)") auto

declare cut_loop.simps [simp del]

definition cut_loop_fixed ::
  "Buffers_read \<Rightarrow> real list \<Rightarrow> real list \<Rightarrow> nat \<Rightarrow> Buffers_write \<Rightarrow> error + Buffers_write" where
  "cut_loop_fixed r theta_cut phi_cut Np w = cut_loop (cut_fixed r theta_cut phi_cut) Np 0 w"

definition cut_loop_halo ::
  "Buffers_read \<Rightarrow> real list \<Rightarrow> real \<Rightarrow> real list \<Rightarrow> real list \<Rightarrow> nat \<Rightarrow> Buffers_write \<Rightarrow>
   error + Buffers_write" where
  "cut_loop_halo r k B theta_cut phi_cut Np w = cut_loop (cut_halo r k B theta_cut phi_cut) Np 0 w"

subsection \<open>The selection as the spec words it\<close>

text \<open>
  \<open>RegionSelector.test\<close>: strict inequalities on all four bounds.
\<close>

definition window_test :: "real list \<Rightarrow> real list \<Rightarrow> real \<Rightarrow> real \<Rightarrow> bool" where
  "window_test theta_cut phi_cut theta phi =
     (theta_cut ! 0 < theta \<and> theta < theta_cut ! 1 \<and> phi_cut ! 0 < phi \<and> phi < phi_cut ! 1)"

text \<open>The position whose angles are tested: the raw one, or the rotated one.\<close>

datatype frame = Raw | Rotated "real list" real

definition frame_pos :: "frame \<Rightarrow> Buffers_read \<Rightarrow> nat \<Rightarrow> real list" where
  "frame_pos fr r n =
     (case fr of
        Raw \<Rightarrow> [r_x r ! n, r_y r ! n, r_z r ! n]
      | Rotated k B \<Rightarrow>
          (case rotate_vec k B [r_x r ! n, r_y r ! n, r_z r ! n] of
             Inr v \<Rightarrow> v | Inl e \<Rightarrow> []))"

definition derived_theta :: "frame \<Rightarrow> Buffers_read \<Rightarrow> nat \<Rightarrow> real option" where
  "derived_theta fr r n =
     (let v = frame_pos fr r n in sph_theta (v ! 0) (v ! 1) (v ! 2))"

definition derived_phi :: "frame \<Rightarrow> Buffers_read \<Rightarrow> nat \<Rightarrow> real option" where
  "derived_phi fr r n = (let v = frame_pos fr r n in sph_phi (v ! 0) (v ! 1))"

text \<open>
  Record \<open>n\<close> is selected: the octant pre-filter holds for the raw position and the
  derived angles are numbers inside the window.
\<close>

definition selected :: "frame \<Rightarrow> Buffers_read \<Rightarrow> real list \<Rightarrow> real list \<Rightarrow> nat \<Rightarrow> bool" where
  "selected fr r theta_cut phi_cut n =
     (r_x r ! n > 0 \<and> r_y r ! n > 0 \<and> r_z r ! n > 0 \<and>
      (case (derived_theta fr r n, derived_phi fr r n) of
         (Some theta, Some phi) \<Rightarrow> window_test theta_cut phi_cut theta phi
       | _ \<Rightarrow> False))"

text \<open>The batch with the records of the given indices appended, in the order given.\<close>

definition append_records :: "frame \<Rightarrow> Buffers_read \<Rightarrow> nat list \<Rightarrow> Buffers_write \<Rightarrow> Buffers_write" where
  "append_records fr r ns w =
     w\<lparr>w_theta := w_theta w @ map (\<lambda>n. the (derived_theta fr r n)) ns,
       w_phi := w_phi w @ map (\<lambda>n. the (derived_phi fr r n)) ns,
       w_x := w_x w @ map (\<lambda>n. r_x r ! n) ns,
       w_y := w_y w @ map (\<lambda>n. r_y r ! n) ns,
       w_z := w_z w @ map (\<lambda>n. r_z r ! n) ns,
       w_vx := w_vx w @ map (\<lambda>n. r_vx r ! n) ns,
       w_vy := w_vy w @ map (\<lambda>n. r_vy r ! n) ns,
       w_vz := w_vz w @ map (\<lambda>n. r_vz r ! n) ns,
       w_a := w_a w @ map (\<lambda>n. r_a r ! n) ns,
       w_id := w_id w @ map (\<lambda>n. r_id r ! n) ns,
       w_rotation := w_rotation w @ map (\<lambda>n. r_rotation r ! n) ns,
       w_replication := w_replication w @ map (\<lambda>n. r_replication r ! n) ns\<rparr>"


lemma append_records_Nil [simp]: "append_records fr r [] w = w"
  by (simp add: append_records_def)

lemma append_records_Cons:
  "append_records fr r (n # ns) w =
     append_records fr r ns
       (push_back_record r n (the (derived_theta fr r n)) (the (derived_phi fr r n)) w)"
  by (simp add: append_records_def push_back_record_def)

lemma cut_fixed_selected:
  assumes "length theta_cut = 2" "length phi_cut = 2"
  shows "cut_fixed r theta_cut phi_cut n w =
     Inr (if selected Raw r theta_cut phi_cut n then append_records Raw r [n] w else w)"
  using assms
  by (auto simp: cut_fixed_def cut_and_push_def selected_def derived_theta_def derived_phi_def
      frame_pos_def window_test_def append_records_Cons split: option.splits)

lemma rotate_vec_3:
  "rotate_vec [k1, k2, k3] B [v1, v2, v3] =
     Inr [v1 * cos B + (k2 * v3 - k3 * v2) * sin B + k1 * (k1 * v1 + k2 * v2 + k3 * v3) * (1 - cos B),
          v2 * cos B + - (k1 * v3 - k3 * v1) * sin B + k2 * (k1 * v1 + k2 * v2 + k3 * v3) * (1 - cos B),
          v3 * cos B + (k1 * v2 - k2 * v1) * sin B + k3 * (k1 * v1 + k2 * v2 + k3 * v3) * (1 - cos B)]"
  by (simp add: rotate_vec_def upt_3)

lemma length_3_cases: "length k = 3 \<Longrightarrow> \<exists>k1 k2 k3. k = [k1, k2, k3]"
  by (cases k; simp; (rename_tac a l, case_tac l; simp; (rename_tac b m, case_tac m; simp)))

lemma cut_halo_selected:
  assumes "length theta_cut = 2" "length phi_cut = 2" "length k = 3"
  shows "cut_halo r k B theta_cut phi_cut n w =
     Inr (if selected (Rotated k B) r theta_cut phi_cut n
          then append_records (Rotated k B) r [n] w else w)"
proof -
  obtain k1 k2 k3 where k: "k = [k1, k2, k3]" using length_3_cases [OF assms(3)] by blast
  show ?thesis
    using assms(1,2) unfolding k
    by (auto simp: cut_halo_def cut_and_push_def selected_def derived_theta_def derived_phi_def
        frame_pos_def window_test_def append_records_Cons rotate_vec_3 split: option.splits)
qed

lemma append_records_append:
  "append_records fr r (ns @ ms) w = append_records fr r ms (append_records fr r ns w)"
  by (simp add: append_records_def)

lemma cut_loop_filter:
  assumes body: "\<And>n w. body n w = Inr (if P n then append_records fr r [n] w else w)"
  shows "cut_loop body Np n w = Inr (append_records fr r (filter P [n..<Np]) w)"
  using assms
proof (induction body Np n w rule: cut_loop.induct)
  case (1 body Np n w)
  show ?case
  proof (cases "n < Np")
    case True
    have b: "body n w = Inr (if P n then append_records fr r [n] w else w)" by (rule "1.prems")
    have ih: "cut_loop body Np (Suc n) (if P n then append_records fr r [n] w else w) =
          Inr (append_records fr r (filter P [Suc n..<Np])
                (if P n then append_records fr r [n] w else w))"
      using "1.IH" [OF True b] "1.prems" by blast
    have upt: "[n..<Np] = n # [Suc n..<Np]" using True by (simp add: upt_rec)
    show ?thesis
      by (subst cut_loop.simps) (simp add: True b ih upt append_records_Cons)
  next
    case False
    then show ?thesis by (subst cut_loop.simps) simp
  qed
qed

lemma selected_boundary:
  "derived_theta fr r n = Some theta \<Longrightarrow>
     \<not> selected fr r [theta, t1] phi_cut n \<and> \<not> selected fr r [t0, theta] phi_cut n"
  by (simp add: selected_def window_test_def split: option.splits)


lemma append_records_neq: "append_records fr r [n] w \<noteq> w"
proof
  assume "append_records fr r [n] w = w"
  then have "w_x (append_records fr r [n] w) = w_x w" by simp
  then show False by (simp add: append_records_def)
qed

lemma sph_theta_octant:
  assumes "0 < x" "0 < y" "0 < z"
  shows "\<exists>t. sph_theta x y z = Some t \<and> 0 < t \<and> t \<le> 324000"
proof -
  define r where "r = sqrt (x * x + y * y + z * z)"
  have s: "0 < x * x + y * y" using assms by (simp add: add_pos_pos)
  have zz: "z * z < x * x + y * y + z * z" using s by simp
  have "sqrt (z * z) < r" unfolding r_def using zz by (simp only: real_sqrt_less_iff)
  then have zr: "z < r" using assms by simp
  then have rpos: "0 < r" using assms by simp
  have q: "0 < z / r" "z / r < 1" using zr rpos assms by simp_all
  have a1: "0 < arccos (z / r)" using arccos_lt_bounded [of "z / r"] q by simp
  have a2: "arccos (z / r) \<le> pi / 2" using arccos_le_pi2 [of "z / r"] q by simp
  have u: "arccos (z / r) * 180 / pi * 3600 \<le> 324000"
    using a2 pi_gt_zero by (simp add: field_simps)
  have l: "0 < arccos (z / r) * 180 / pi * 3600" using a1 by simp
  show ?thesis
    using rpos l u by (simp add: sph_theta_def r_def [symmetric] Let_def PI_def ARCSEC_def)
qed

lemma sph_phi_octant:
  assumes "0 < x" "0 < y"
  shows "\<exists>p. sph_phi x y = Some p \<and> 0 < p \<and> p < 324000"
proof -
  have q: "0 < y / x" using assms by simp
  have a1: "0 < arctan (y / x)" using q by (simp only: zero_less_arctan_iff)
  have a2: "arctan (y / x) < pi / 2" by (rule arctan_ubound)
  have u: "arctan (y / x) * 180 / pi * 3600 < 324000"
    using a2 pi_gt_zero by (simp add: field_simps)
  have l: "0 < arctan (y / x) * 180 / pi * 3600" using a1 by simp
  show ?thesis using assms l u by (simp add: sph_phi_def atan_quot_def PI_def ARCSEC_def)
qed

text \<open>
  With a window that contains the whole octant, the selection is the octant pre-filter.
\<close>

lemma selected_Raw_open_window:
  "selected Raw r [0, 400000] [0, 324000] n = (r_x r ! n > 0 \<and> r_y r ! n > 0 \<and> r_z r ! n > 0)"
proof (cases "r_x r ! n > 0 \<and> r_y r ! n > 0 \<and> r_z r ! n > 0")
  case True
  obtain t where t: "sph_theta (r_x r ! n) (r_y r ! n) (r_z r ! n) = Some t" "0 < t" "t \<le> 324000"
    using sph_theta_octant True by blast
  obtain p where p: "sph_phi (r_x r ! n) (r_y r ! n) = Some p" "0 < p" "p < 324000"
    using sph_phi_octant True by blast
  show ?thesis
    using True t p
    by (simp add: selected_def derived_theta_def derived_phi_def frame_pos_def window_test_def)
next
  case False
  then show ?thesis by (auto simp: selected_def)
qed

definition example_partition :: Buffers_read where
  "example_partition =
     \<lparr>r_x = [1, - 1], r_y = [1, 1], r_z = [1, 1], r_vx = [0, 0], r_vy = [0, 0], r_vz = [0, 0],
      r_a = [1, 1], r_id = [7, 8], r_step = [0, 0], r_rotation = [0, 0],
      r_replication = [0, 0]\<rparr>"

definition empty_vec :: int_vec where
  "empty_vec = \<lparr>storage = [], vsize = 0\<rparr>"

definition empty_batch :: Buffers_write where
  "empty_batch =
     \<lparr>w_x = [], w_y = [], w_z = [], w_vx = [], w_vy = [], w_vz = [], w_a = [], w_id = [],
      w_step = [], w_rotation = [], w_replication = [], w_theta = [], w_phi = [],
      np_count = empty_vec, np_offset = empty_vec\<rparr>"

text \<open>
  Claim C1.  In both variants the filter loop appends exactly the records of the local
  partition that pass the octant pre-filter on the raw position and whose derived angles
  (of the raw position in the fixed-window variant, of the rotated position in the halo
  variant) lie strictly inside the window, in the order of the partition; one pass of the
  loop body changes the batch if and only if the record is selected; and a record whose
  theta equals one of the two theta bounds is not selected.
\<close>

theorem cutout_filter_selects:
  "length theta_cut = 2 \<Longrightarrow> length phi_cut = 2 \<Longrightarrow> length k = 3 \<Longrightarrow>
   cut_loop_fixed r theta_cut phi_cut Np w =
     Inr (append_records Raw r (filter (selected Raw r theta_cut phi_cut) [0..<Np]) w) \<and>
   cut_loop_halo r k B theta_cut phi_cut Np w =
     Inr (append_records (Rotated k B) r
            (filter (selected (Rotated k B) r theta_cut phi_cut) [0..<Np]) w) \<and>
   (cut_fixed r theta_cut phi_cut n w \<noteq> Inr w) = selected Raw r theta_cut phi_cut n \<and>
   (cut_halo r k B theta_cut phi_cut n w \<noteq> Inr w) = selected (Rotated k B) r theta_cut phi_cut n \<and>
   (derived_theta fr r n = Some (theta_cut ! 0) \<or> derived_theta fr r n = Some (theta_cut ! 1)
      \<longrightarrow> \<not> selected fr r theta_cut phi_cut n)"
proof (intro conjI)
  assume tc: "length theta_cut = 2" and pc: "length phi_cut = 2" and k: "length k = 3"
  show "cut_loop_fixed r theta_cut phi_cut Np w =
     Inr (append_records Raw r (filter (selected Raw r theta_cut phi_cut) [0..<Np]) w)"
    unfolding cut_loop_fixed_def
    by (rule cut_loop_filter) (rule cut_fixed_selected [OF tc pc])
  show "cut_loop_halo r k B theta_cut phi_cut Np w =
     Inr (append_records (Rotated k B) r
            (filter (selected (Rotated k B) r theta_cut phi_cut) [0..<Np]) w)"
    unfolding cut_loop_halo_def
    by (rule cut_loop_filter) (rule cut_halo_selected [OF tc pc k])
  show "(cut_fixed r theta_cut phi_cut n w \<noteq> Inr w) = selected Raw r theta_cut phi_cut n"
    by (simp add: cut_fixed_selected [OF tc pc] append_records_neq)
  show "(cut_halo r k B theta_cut phi_cut n w \<noteq> Inr w) = selected (Rotated k B) r theta_cut phi_cut n"
    by (simp add: cut_halo_selected [OF tc pc k] append_records_neq)
  show "derived_theta fr r n = Some (theta_cut ! 0) \<or> derived_theta fr r n = Some (theta_cut ! 1)
      \<longrightarrow> \<not> selected fr r theta_cut phi_cut n"
    by (auto simp: selected_def window_test_def split: option.splits)
qed

theorem cutout_filter_selects_witness:
  "cut_loop_fixed example_partition [0, 400000] [0, 324000] 2 empty_batch =
     Inr (append_records Raw example_partition [0] empty_batch) \<and>
   cut_loop_halo example_partition [0, 0, 0] 0 [0, 400000] [0, 324000] 2 empty_batch =
     Inr (append_records (Rotated [0, 0, 0] 0) example_partition
            (filter (selected (Rotated [0, 0, 0] 0) example_partition [0, 400000] [0, 324000]) [0..<2])
            empty_batch) \<and>
   cut_fixed example_partition [0, 400000] [0, 324000] 0 empty_batch \<noteq> Inr empty_batch \<and>
   cut_fixed example_partition [0, 400000] [0, 324000] 1 empty_batch = Inr empty_batch \<and>
   w_id (append_records Raw example_partition [0] empty_batch) = [7]"
proof -
  have two: "[0..<2] = [0, Suc 0]" by (simp add: upt_rec numeral_2_eq_2)
  have s0: "selected Raw example_partition [0, 400000] [0, 324000] 0"
    by (simp add: selected_Raw_open_window example_partition_def)
  have s1: "\<not> selected Raw example_partition [0, 400000] [0, 324000] 1"
    by (simp add: selected_Raw_open_window example_partition_def)
  show ?thesis
    using cutout_filter_selects [where theta_cut = "[0, 400000]" and phi_cut = "[0, 324000]"
        and k = "[0, 0, 0]" and r = example_partition and Np = 2 and w = empty_batch and B = 0
        and n = 0 and fr = Raw]
      cutout_filter_selects [where theta_cut = "[0, 400000]" and phi_cut = "[0, 324000]"
        and k = "[0, 0, 0]" and r = example_partition and Np = 2 and w = empty_batch and B = 0
        and n = 1 and fr = Raw]
      s0 s1
    by (simp add: two) (simp add: append_records_def example_partition_def empty_batch_def)
qed

section \<open>The window of the halo variant\<close>

text \<open>
  The cut vectors of the halo variant (processLC.cpp 506-536), from the halo position and
  the box length.  The quotient \<open>halfBoxLength / halo_r\<close> is a NaN when both are zero.
\<close>

definition halo_window :: "real list \<Rightarrow> real \<Rightarrow> error + real list \<times> real list" where
  "halo_window halo_pos boxLength =
     (if length halo_pos < 3 then Inl OutOfRange
      else let halo_r = halo_r_of halo_pos;
               halfBoxLength = boxLength / 2
           in case atan_quot halfBoxLength halo_r of
                None \<Rightarrow> Inl NotFinite
              | Some dtheta \<Rightarrow>
                  let dphi = dtheta
                  in Inr ([(PI / 2 - dtheta) * 180 / PI * ARCSEC,
                           (PI / 2 + dtheta) * 180 / PI * ARCSEC],
                          [(0 - dphi) * 180 / PI * ARCSEC,
                           (0 + dphi) * 180 / PI * ARCSEC]))"

text \<open>
  The window as the spec words it: the half-angle \<open>atan ((L / 2) / r)\<close> in degrees, the theta
  interval \<open>(90 - d, 90 + d)\<close> and the phi interval \<open>(- d, d)\<close> in degrees, and degrees times
  3600.
\<close>

definition degrees :: "real \<Rightarrow> real" where
  "degrees rad = rad * 180 / pi"

definition spec_halo_window :: "real list \<Rightarrow> real \<Rightarrow> real list \<times> real list" where
  "spec_halo_window p L =
     (let r = sqrt ((p ! 0)\<^sup>2 + (p ! 1)\<^sup>2 + (p ! 2)\<^sup>2);
          d = degrees (arctan ((L / 2) / r))
      in ([(90 - d) * 3600, (90 + d) * 3600], [(- d) * 3600, d * 3600]))"



lemma arctan_lower:
  assumes "0 \<le> x"
  shows "x - x ^ 3 / 3 \<le> arctan x"
proof -
  define f where "f = (\<lambda>t::real. arctan t - (t - t ^ 3 / 3))"
  have d: "\<exists>y. DERIV f t :> y \<and> 0 \<le> y" for t
  proof -
    have "DERIV f t :> 1 / (1 + t\<^sup>2) - (1 - t\<^sup>2)"
      unfolding f_def by (auto intro!: derivative_eq_intros simp: power2_eq_square inverse_eq_divide)
    moreover have "1 / (1 + t\<^sup>2) - (1 - t\<^sup>2) = t ^ 4 / (1 + t\<^sup>2)"
    proof -
      have nz: "1 + t\<^sup>2 \<noteq> 0" by (metis add_pos_nonneg less_numeral_extra(1) less_irrefl zero_le_power2)
      show ?thesis using nz by (simp add: field_simps power2_eq_square power4_eq_xxxx)
    qed
    moreover have "0 \<le> t ^ 4 / (1 + t\<^sup>2)" by (simp add: add_nonneg_nonneg)
    ultimately show ?thesis by metis
  qed
  have "f 0 \<le> f x" using assms d by (intro DERIV_nonneg_imp_nondecreasing [of 0 x f]) auto
  then show ?thesis by (simp add: f_def)
qed

lemma arctan_upper:
  assumes "0 \<le> x"
  shows "arctan x \<le> x - x ^ 3 / 3 + x ^ 5 / 5"
proof -
  define f where "f = (\<lambda>t::real. (t - t ^ 3 / 3 + t ^ 5 / 5) - arctan t)"
  have d: "\<exists>y. DERIV f t :> y \<and> 0 \<le> y" for t
  proof -
    have "DERIV f t :> (1 - t\<^sup>2 + t ^ 4) - 1 / (1 + t\<^sup>2)"
      unfolding f_def by (auto intro!: derivative_eq_intros simp: power2_eq_square inverse_eq_divide)
    moreover have "(1 - t\<^sup>2 + t ^ 4) - 1 / (1 + t\<^sup>2) = t ^ 6 / (1 + t\<^sup>2)"
    proof -
      have nz: "1 + t\<^sup>2 \<noteq> 0" by (metis add_pos_nonneg less_numeral_extra(1) less_irrefl zero_le_power2)
      have "((1 - t\<^sup>2 + t ^ 4) - 1 / (1 + t\<^sup>2)) * (1 + t\<^sup>2) = t ^ 6"
        using nz by (simp add: field_simps)
      then show ?thesis using nz by (simp add: field_simps)
    qed
    moreover have "0 \<le> t ^ 6 / (1 + t\<^sup>2)" by (simp add: add_nonneg_nonneg)
    ultimately show ?thesis by metis
  qed
  have "f 0 \<le> f x" using assms d by (intro DERIV_nonneg_imp_nondecreasing [of 0 x f]) auto
  then show ?thesis by (simp add: f_def)
qed

lemma pi_bounds: "3.1405 < pi" "pi < 3.1417"
proof -
  have m: "pi = 16 * arctan (1 / 5) - 4 * arctan (1 / 239)" using machin by simp
  have l5: "(1/5) - (1/5) ^ 3 / 3 \<le> arctan (1 / 5 :: real)" by (rule arctan_lower) simp
  have u5: "arctan (1 / 5 :: real) \<le> (1/5) - (1/5) ^ 3 / 3 + (1/5) ^ 5 / 5" by (rule arctan_upper) simp
  have l239: "(1/239) - (1/239) ^ 3 / 3 \<le> arctan (1 / 239 :: real)" by (rule arctan_lower) simp
  have u239: "arctan (1 / 239 :: real) \<le> 1 / 239"
    using arctan_upper [of "1 / 239"] by (simp add: power_divide)
  show "3.1405 < pi" using m l5 u239 by (simp add: power_divide)
  show "pi < 3.1417" using m u5 l239 by (simp add: power_divide)
qed

lemma half_angle_example: "0.5725 < degrees (arctan (1 / 100))" "degrees (arctan (1 / 100)) < 0.5735"
proof -
  have l: "(1/100) - (1/100) ^ 3 / 3 \<le> arctan (1 / 100 :: real)" by (rule arctan_lower) simp
  have u: "arctan (1 / 100 :: real) \<le> 1 / 100"
    using arctan_upper [of "1 / 100"] by (simp add: power_divide)
  have a: "0.0099996 \<le> arctan (1 / 100 :: real)" using l by (simp add: power_divide)
  have "0.5725 * pi < 0.0099996 * 180" using pi_bounds(2) by simp
  also have "\<dots> \<le> arctan (1 / 100) * 180" using a by simp
  finally show "0.5725 < degrees (arctan (1 / 100))"
    by (simp add: degrees_def pos_less_divide_eq)
  have "arctan (1 / 100) * 180 \<le> (1 / 100) * 180" using u by simp
  also have "\<dots> < 0.5735 * pi" using pi_bounds(1) by simp
  finally show "degrees (arctan (1 / 100)) < 0.5735"
    by (simp add: degrees_def pos_divide_less_eq)
qed

lemma halo_window_spec:
  assumes "length halo_pos = 3" "halo_r_of halo_pos \<noteq> 0"
  shows "halo_window halo_pos boxLength = Inr (spec_halo_window halo_pos boxLength)"
proof -
  have e: "(pi / 2 - t) * 180 / pi * 3600 = (90 - t * 180 / pi) * 3600"
          "(pi / 2 + t) * 180 / pi * 3600 = (90 + t * 180 / pi) * 3600" for t :: real
    by (simp_all add: field_simps)
  have z: "sqrt (halo_pos ! 0 * halo_pos ! 0 + halo_pos ! 1 * halo_pos ! 1 + halo_pos ! 2 * halo_pos ! 2) \<noteq> 0"
    using assms(2) unfolding halo_r_of_def .
  show ?thesis
    unfolding halo_window_def spec_halo_window_def halo_r_of_def atan_quot_def Let_def PI_def
      ARCSEC_def degrees_def e power2_eq_square
    using assms(1) z by simp
qed

text \<open>
  Claim C7.  For a halo position of three entries away from the origin the cut vectors
  computed by the halo variant are the window of the spec: theta in
  \<open>(90 - d, 90 + d)\<close> degrees and phi in \<open>(- d, d)\<close> degrees with \<open>d\<close> the half-angle
  \<open>atan ((L / 2) / r)\<close> in degrees, multiplied by 3600.  For the halo at \<open>(100, 0, 0)\<close> and
  \<open>L = 2\<close> the half-angle is \<open>atan (1 / 100)\<close> and the theta bounds are \<open>89.427\<close> and \<open>90.573\<close>
  degrees to three decimals.
\<close>

theorem halo_window_matches_spec:
  "(length halo_pos = 3 \<and> halo_r_of halo_pos \<noteq> 0 \<longrightarrow>
      halo_window halo_pos boxLength = Inr (spec_halo_window halo_pos boxLength)) \<and>
   halo_window [100, 0, 0] 2 =
     Inr ([(90 - degrees (arctan (1 / 100))) * 3600, (90 + degrees (arctan (1 / 100))) * 3600],
          [(- degrees (arctan (1 / 100))) * 3600, degrees (arctan (1 / 100)) * 3600]) \<and>
   \<bar>(90 - degrees (arctan (1 / 100))) - 89.427\<bar> < 0.0005 \<and>
   \<bar>(90 + degrees (arctan (1 / 100))) - 90.573\<bar> < 0.0005"
proof (intro conjI impI)
  assume "length halo_pos = 3 \<and> halo_r_of halo_pos \<noteq> 0"
  then show "halo_window halo_pos boxLength = Inr (spec_halo_window halo_pos boxLength)"
    by (simp add: halo_window_spec)
next
  have r: "halo_r_of [100, 0, 0] = 100" by (simp add: halo_r_of_def)
  have "halo_window [100, 0, 0] 2 = Inr (spec_halo_window [100, 0, 0] 2)"
    by (rule halo_window_spec) (simp_all add: r)
  then show "halo_window [100, 0, 0] 2 =
     Inr ([(90 - degrees (arctan (1 / 100))) * 3600, (90 + degrees (arctan (1 / 100))) * 3600],
          [(- degrees (arctan (1 / 100))) * 3600, degrees (arctan (1 / 100)) * 3600])"
    by (simp add: spec_halo_window_def Let_def)
next
  show "\<bar>(90 - degrees (arctan (1 / 100))) - 89.427\<bar> < 0.0005"
    unfolding abs_less_iff using half_angle_example by simp
  show "\<bar>(90 + degrees (arctan (1 / 100))) - 90.573\<bar> < 0.0005"
    unfolding abs_less_iff using half_angle_example by simp
qed

theorem halo_window_matches_spec_witness:
  "halo_window [3, 0, 4] 10 = Inr (spec_halo_window [3, 0, 4] 10) \<and>
   spec_halo_window [3, 0, 4] 10 =
     ([(90 - degrees (arctan 1)) * 3600, (90 + degrees (arctan 1)) * 3600],
      [(- degrees (arctan 1)) * 3600, degrees (arctan 1) * 3600]) \<and>
   degrees (arctan 1) = 45"
proof -
  have "sqrt ((3::real)\<^sup>2 + 0\<^sup>2 + 4\<^sup>2) = sqrt (5\<^sup>2)" by simp
  then have s: "sqrt ((3::real)\<^sup>2 + 0\<^sup>2 + 4\<^sup>2) = 5" by simp
  have "sqrt ((3::real) * 3 + 0 * 0 + 4 * 4) = sqrt (5\<^sup>2)" by simp
  then have r: "halo_r_of [3, 0, 4] = 5" unfolding halo_r_of_def by (simp only: real_sqrt_abs nth_Cons_0 nth_Cons_Suc nth_2_Cons3 One_nat_def)
  show ?thesis
    using halo_window_matches_spec [of "[3, 0, 4]" 10]
    by (simp add: r spec_halo_window_def s degrees_def arctan_one)
qed

section \<open>The offset exchange (processLC.cpp 64-70 and 348-361)\<close>

text \<open>
  The vectors \<^verbatim>\<open>np_count\<close> and \<^verbatim>\<open>np_offset\<close> are indexed with the unchecked \<^verbatim>\<open>operator[]\<close>.  Its
  contract admits an index below \<^verbatim>\<open>size()\<close> (\<open>SizeBound\<close>); on the machine the access goes to
  the storage the vector owns and stays inside it below the capacity (\<open>StorageBound\<close>).
  The functions of this section take the bound as a parameter.
\<close>

datatype indexing = SizeBound | StorageBound

definition index_bound :: "indexing \<Rightarrow> int_vec \<Rightarrow> nat" where
  "index_bound ix v = (case ix of SizeBound \<Rightarrow> vsize v | StorageBound \<Rightarrow> length (storage v))"

text \<open>
  \<^verbatim>\<open>resize(n)\<close>: new elements are zero; the storage is kept while \<open>n\<close> fits the capacity and
  is otherwise reallocated with the capacity \<open>size + max size (n - size)\<close>.  \<^verbatim>\<open>clear()\<close> sets
  the size to zero and keeps the storage.
\<close>

definition vec_resize :: "nat \<Rightarrow> int_vec \<Rightarrow> int_vec" where
  "vec_resize n v =
     (if n \<le> vsize v then v\<lparr>vsize := n\<rparr>
      else if n \<le> length (storage v)
      then \<lparr>storage = take (vsize v) (storage v) @ replicate (n - vsize v) 0 @ drop n (storage v),
            vsize = n\<rparr>
      else \<lparr>storage = take (vsize v) (storage v) @ replicate (n - vsize v) 0 @
                      replicate (vsize v + max (vsize v) (n - vsize v) - n) 0,
            vsize = n\<rparr>)"

definition vec_clear :: "int_vec \<Rightarrow> int_vec" where
  "vec_clear v = v\<lparr>vsize := 0\<rparr>"

definition vec_get :: "indexing \<Rightarrow> int_vec \<Rightarrow> nat \<Rightarrow> error + 32 word" where
  "vec_get ix v i = (if i < index_bound ix v then Inr (storage v ! i) else Inl OutOfRange)"

definition vec_set :: "indexing \<Rightarrow> int_vec \<Rightarrow> nat \<Rightarrow> 32 word \<Rightarrow> error + int_vec" where
  "vec_set ix v i x =
     (if i < index_bound ix v then Inr (v\<lparr>storage := (storage v)[i := x]\<rparr>) else Inl OutOfRange)"

text \<open>The set-up of \<^verbatim>\<open>processLC\<close> (processLC.cpp 64-70 and 468-473).\<close>

definition setup_batch :: "nat \<Rightarrow> Buffers_write" where
  "setup_batch numranks =
     empty_batch\<lparr>np_count := vec_resize numranks empty_vec,
                 np_offset := vec_resize numranks empty_vec\<rparr>"

text \<open>\<^verbatim>\<open>int cutout_size = int(w.a.size())\<close>.\<close>

definition cutout_size :: "Buffers_write \<Rightarrow> 32 word" where
  "cutout_size w = word_of_nat (length (w_a w))"

text \<open>
  \<^verbatim>\<open>MPI_Allgather\<close> with the receive buffer \<^verbatim>\<open>&w.np_count[0]\<close>: one \<^verbatim>\<open>int\<close> of every process of
  the group, in rank order, is stored from index 0 on.
\<close>

definition allgather_into :: "indexing \<Rightarrow> int_vec \<Rightarrow> 32 word list \<Rightarrow> error + int_vec" where
  "allgather_into ix v gathered =
     (if 0 < index_bound ix v \<and> length gathered \<le> index_bound ix v
      then Inr (v\<lparr>storage := gathered @ drop (length gathered) (storage v)\<rparr>)
      else Inl OutOfRange)"

text \<open>
  The loop \<^verbatim>\<open>for(int j=1; j < numranks; ++j)\<close> (processLC.cpp 359-361).  The addition is that
  of \<^verbatim>\<open>int\<close>: it wraps where the sum leaves the 32-bit range (undefined in C++).
\<close>

function offset_loop :: "indexing \<Rightarrow> nat \<Rightarrow> nat \<Rightarrow> int_vec \<Rightarrow> int_vec \<Rightarrow> error + int_vec" where
  "offset_loop ix numranks j cnt off =
     (if j < numranks then
        ebind (vec_get ix off (j - 1)) (\<lambda>a.
        ebind (vec_get ix cnt (j - 1)) (\<lambda>b.
        ebind (vec_set ix off j (a + b)) (\<lambda>off'.
          offset_loop ix numranks (Suc j) cnt off')))
      else Inr off)"
  by pat_completeness auto
termination
  by (relation "measure (\<lambda>(ix, numranks, j, cnt, off). numranks - j)") auto

declare offset_loop.simps [simp del]

text \<open>
  The exchange of one process (processLC.cpp 348-361); \<open>gathered\<close> is what the all-gather
  delivers, the \<open>cutout_size\<close> of every process in rank order.
\<close>

definition offset_exchange ::
  "indexing \<Rightarrow> nat \<Rightarrow> 32 word list \<Rightarrow> Buffers_write \<Rightarrow> error + Buffers_write" where
  "offset_exchange ix numranks gathered w =
     (let w1 = w\<lparr>np_count := vec_clear (np_count w), np_offset := vec_clear (np_offset w)\<rparr>
      in ebind (vec_set ix (np_offset w1) 0 0) (\<lambda>off0.
         ebind (allgather_into ix (np_count w1) gathered) (\<lambda>cnt.
         ebind (offset_loop ix numranks 1 cnt off0) (\<lambda>off.
           Inr (w1\<lparr>np_count := cnt, np_offset := off\<rparr>)))))"

text \<open>The exclusive prefix sums of the counts, in 32-bit arithmetic.\<close>

definition prefix_offsets :: "32 word list \<Rightarrow> nat \<Rightarrow> 32 word list" where
  "prefix_offsets counts n = map (\<lambda>i. sum_list (take i counts)) [0..<n]"


lemma offset_loop_prefix:
  assumes "length (storage cnt) = n" "length (storage off) = n" "0 < j" "j \<le> n"
    and "take j (storage off) = prefix_offsets (storage cnt) j"
  shows "\<exists>off'. offset_loop StorageBound n j cnt off = Inr off' \<and>
           storage off' = prefix_offsets (storage cnt) n \<and> vsize off' = vsize off"
  using assms
proof (induction "n - j" arbitrary: j off)
  case 0
  then have jn: "j = n" by simp
  have "storage off = prefix_offsets (storage cnt) n"
    using "0.prems"(2,5) jn by simp
  then show ?case
    by (subst offset_loop.simps) (simp add: jn)
next
  case (Suc d)
  then have lt: "j < n" by simp
  let ?c = "storage cnt"
  obtain m where jm: "j = Suc m" using Suc.prems(3) by (cases j) simp_all
  have m1: "m < n" using lt jm by simp
  have prev: "storage off ! m = sum_list (take m ?c)"
  proof -
    have "take j (storage off) ! m = prefix_offsets ?c j ! m"
      using Suc.prems(5) by simp
    then show ?thesis by (simp add: prefix_offsets_def jm nth_append)
  qed
  have tk: "take j ?c = take m ?c @ [?c ! m]"
    using take_Suc_conv_app_nth [of m ?c] Suc.prems(1) m1 jm by simp
  have sum: "storage off ! m + ?c ! m = sum_list (take j ?c)"
    by (simp add: prev tk)
  define off1 where "off1 = off\<lparr>storage := (storage off)[j := sum_list (take j ?c)]\<rparr>"
  have len1: "length (storage off1) = n" by (simp add: off1_def Suc.prems(2))
  have tk1: "take (Suc j) (storage off1) = prefix_offsets ?c (Suc j)"
  proof -
    have "take (Suc j) (storage off1) = take j (storage off1) @ [storage off1 ! j]"
      using len1 lt by (simp add: take_Suc_conv_app_nth)
    also have "take j (storage off1) = take j (storage off)" by (simp add: off1_def)
    also have "storage off1 ! j = sum_list (take j ?c)"
      using lt Suc.prems(2) by (simp add: off1_def)
    finally show ?thesis by (simp add: Suc.prems(5) prefix_offsets_def)
  qed
  have d: "d = n - Suc j" using Suc.hyps(2) by simp
  have "\<exists>off'. offset_loop StorageBound n (Suc j) cnt off1 = Inr off' \<and>
           storage off' = prefix_offsets ?c n \<and> vsize off' = vsize off1"
    by (rule Suc.hyps(1) [OF d Suc.prems(1) len1 _ _ tk1]) (use lt in simp_all)
  then obtain off' where r: "offset_loop StorageBound n (Suc j) cnt off1 = Inr off'"
      "storage off' = prefix_offsets ?c n" "vsize off' = vsize off1" by auto
  have g1: "vec_get StorageBound off m = Inr (storage off ! m)"
    using m1 Suc.prems(2) by (simp add: vec_get_def index_bound_def)
  have g2: "vec_get StorageBound cnt m = Inr (?c ! m)"
    using m1 Suc.prems(1) by (simp add: vec_get_def index_bound_def)
  have g3: "vec_set StorageBound off j (storage off ! m + ?c ! m) = Inr off1"
    using lt Suc.prems(2) by (simp add: vec_set_def index_bound_def off1_def sum)
  have jm1: "j - 1 = m" using jm by simp
  have step: "offset_loop StorageBound n j cnt off = offset_loop StorageBound n (Suc j) cnt off1"
    by (subst offset_loop.simps) (simp only: lt if_True jm1 g1 g2 g3 ebind_Inr)
  show ?case using r by (simp add: step off1_def)
qed

lemma offset_exchange_storage:
  assumes "0 < numranks" "length gathered = numranks"
    "length (storage (np_count w)) = numranks" "length (storage (np_offset w)) = numranks"
  shows "\<exists>w'. offset_exchange StorageBound numranks gathered w = Inr w' \<and>
            storage (np_count w') = gathered \<and>
            storage (np_offset w') = prefix_offsets gathered numranks \<and>
            vsize (np_count w') = 0 \<and> vsize (np_offset w') = 0 \<and>
            w' = w\<lparr>np_count := np_count w', np_offset := np_offset w'\<rparr>"
proof -
  let ?off0 = "(vec_clear (np_offset w))\<lparr>storage := (storage (np_offset w))[0 := 0]\<rparr>"
  let ?cnt = "(vec_clear (np_count w))\<lparr>storage := gathered\<rparr>"
  have s0: "vec_set StorageBound (vec_clear (np_offset w)) 0 0 = Inr ?off0"
    using assms(1,4) by (simp add: vec_set_def index_bound_def vec_clear_def)
  have ag: "allgather_into StorageBound (vec_clear (np_count w)) gathered = Inr ?cnt"
    using assms(1,2,3) by (simp add: allgather_into_def index_bound_def vec_clear_def)
  have t1: "take 1 (storage ?off0) = prefix_offsets (storage ?cnt) 1"
    using assms(1,4) by (cases "storage (np_offset w)") (simp_all add: vec_clear_def prefix_offsets_def)
  have "\<exists>off'. offset_loop StorageBound numranks 1 ?cnt ?off0 = Inr off' \<and>
           storage off' = prefix_offsets (storage ?cnt) numranks \<and> vsize off' = vsize ?off0"
    by (rule offset_loop_prefix) (use assms t1 in \<open>simp_all add: vec_clear_def\<close>)
  then obtain off' where l: "offset_loop StorageBound numranks 1 ?cnt ?off0 = Inr off'"
    "storage off' = prefix_offsets gathered numranks" "vsize off' = 0"
    by (auto simp: vec_clear_def)
  have "offset_exchange StorageBound numranks gathered w =
          Inr (w\<lparr>np_count := ?cnt, np_offset := off'\<rparr>)"
  proof -
    let ?w1 = "w\<lparr>np_count := vec_clear (np_count w), np_offset := vec_clear (np_offset w)\<rparr>"
    have e1: "np_offset ?w1 = vec_clear (np_offset w)" by simp
    have e2: "np_count ?w1 = vec_clear (np_count w)" by simp
    have e3: "?w1\<lparr>np_count := ?cnt, np_offset := off'\<rparr> = w\<lparr>np_count := ?cnt, np_offset := off'\<rparr>"
      by simp
    show ?thesis
      unfolding offset_exchange_def Let_def
      by (simp only: e1 e2 s0 ag l(1) ebind_Inr e3)
  qed
  then show ?thesis using l(2,3) by (simp add: vec_clear_def)
qed

lemma setup_batch_storage:
  "storage (np_count (setup_batch numranks)) = replicate numranks 0"
  "storage (np_offset (setup_batch numranks)) = replicate numranks 0"
  "vsize (np_count (setup_batch numranks)) = numranks"
  "vsize (np_offset (setup_batch numranks)) = numranks"
  by (simp_all add: setup_batch_def vec_resize_def empty_vec_def)

lemma prefix_offsets_nth:
  "i < n \<Longrightarrow> prefix_offsets counts n ! i = sum_list (take i counts)"
  by (simp add: prefix_offsets_def)

lemma prefix_offsets_step:
  assumes "0 < i" "i < n" "n \<le> length counts"
  shows "prefix_offsets counts n ! i = prefix_offsets counts n ! (i - 1) + counts ! (i - 1)"
proof -
  obtain m where im: "i = Suc m" using assms(1) by (cases i) simp_all
  have "take (Suc m) counts = take m counts @ [counts ! m]"
    using assms(2,3) im by (simp add: take_Suc_conv_app_nth)
  then show ?thesis using assms(2) im by (simp add: prefix_offsets_nth)
qed

lemma sum_list_sint_nonneg:
  assumes "\<forall>c\<in>set cs. 0 \<le> sint c"
  shows "0 \<le> sum_list (map sint cs)"
  using assms by (induction cs) auto

lemma sint_sum_list:
  fixes cs :: "32 word list"
  assumes "\<forall>c\<in>set cs. 0 \<le> sint c" "sum_list (map sint cs) < 2 ^ 31"
  shows "sint (sum_list cs) = sum_list (map sint cs)"
  using assms
proof (induction cs)
  case Nil
  then show ?case by simp
next
  case (Cons c cs)
  have c0: "0 \<le> sint c" using Cons.prems(1) by simp
  have r0: "0 \<le> sum_list (map sint cs)" using Cons.prems(1) by (intro sum_list_sint_nonneg) simp
  have rest: "sint (sum_list cs) = sum_list (map sint cs)"
    using Cons.prems c0 by (intro Cons.IH) auto
  have "sint (c + sum_list cs) = signed_take_bit 31 (sint c + sint (sum_list cs))"
    by (simp add: sint_word_ariths)
  also have "\<dots> = sint c + sint (sum_list cs)"
    using Cons.prems(2) c0 r0 by (intro signed_take_bit_int_eq_self) (simp_all add: rest)
  finally show ?case by (simp add: rest)
qed

lemma sum_list_take_le:
  assumes "\<forall>c\<in>set cs. 0 \<le> sint c"
  shows "sum_list (map sint (take i cs)) \<le> sum_list (map sint cs)"
proof -
  have "sum_list (map sint cs) = sum_list (map sint (take i cs)) + sum_list (map sint (drop i cs))"
    by (metis append_take_drop_id map_append sum_list_append)
  moreover have "0 \<le> sum_list (map sint (drop i cs))"
    using assms by (intro sum_list_sint_nonneg) (meson in_set_dropD)
  ultimately show ?thesis by simp
qed

lemma prefix_offsets_mono:
  fixes counts :: "32 word list"
  assumes nn: "\<forall>c\<in>set counts. 0 \<le> sint c" and tot: "sum_list (map sint counts) < 2 ^ 31"
    and i: "0 < i" "i < n" "n \<le> length counts"
  shows "sint (prefix_offsets counts n ! (i - 1)) \<le> sint (prefix_offsets counts n ! i)"
proof -
  obtain m where im: "i = Suc m" using i(1) by (cases i) simp_all
  have s: "sint (sum_list (take j counts)) = sum_list (map sint (take j counts))" for j
  proof (rule sint_sum_list)
    show "\<forall>c\<in>set (take j counts). 0 \<le> sint c" using nn by (meson in_set_takeD)
    show "sum_list (map sint (take j counts)) < 2 ^ 31"
      using sum_list_take_le [OF nn, of j] tot by simp
  qed
  have tk: "take (Suc m) counts = take m counts @ [counts ! m]"
    using i(2,3) im by (simp add: take_Suc_conv_app_nth)
  have "0 \<le> sint (counts ! m)" using nn i(2,3) im by simp
  then have "sum_list (map sint (take m counts)) \<le> sum_list (map sint (take (Suc m) counts))"
    by (simp add: tk)
  then show ?thesis using i(2) im by (simp add: prefix_offsets_nth s)
qed

text \<open>
  Claim C4, as the code has it.  With the unchecked indexing into the storage kept by
  \<^verbatim>\<open>clear()\<close>, the exchange leaves the gathered counts in the storage of \<^verbatim>\<open>np_count\<close> and
  \<open>numranks\<close> offsets in the storage of \<^verbatim>\<open>np_offset\<close> with \<open>offset[0] = 0\<close> and
  \<open>offset[i] = offset[i-1] + count[i-1]\<close> in 32-bit arithmetic for every rank \<open>i > 0\<close>; the
  offsets are non-decreasing when the counts are non-negative and their sum is below
  \<open>2 ^ 31\<close>.
\<close>

theorem write_layout_prefix_sums:
  "0 < numranks \<Longrightarrow> length gathered = numranks \<Longrightarrow>
   length (storage (np_count w)) = numranks \<Longrightarrow> length (storage (np_offset w)) = numranks \<Longrightarrow>
   (\<exists>w'. offset_exchange StorageBound numranks gathered w = Inr w' \<and>
      storage (np_count w') = gathered \<and>
      length (storage (np_offset w')) = numranks \<and>
      storage (np_offset w') ! 0 = 0 \<and>
      (\<forall>i. 0 < i \<and> i < numranks \<longrightarrow>
         storage (np_offset w') ! i =
           storage (np_offset w') ! (i - 1) + storage (np_count w') ! (i - 1)) \<and>
      ((\<forall>c\<in>set gathered. 0 \<le> sint c) \<and> sum_list (map sint gathered) < 2 ^ 31 \<longrightarrow>
         (\<forall>i. 0 < i \<and> i < numranks \<longrightarrow>
            sint (storage (np_offset w') ! (i - 1)) \<le> sint (storage (np_offset w') ! i))))"
proof -
  assume a: "0 < numranks" "length gathered = numranks"
    "length (storage (np_count w)) = numranks" "length (storage (np_offset w)) = numranks"
  from offset_exchange_storage [OF a] obtain w' where
    w': "offset_exchange StorageBound numranks gathered w = Inr w'"
      "storage (np_count w') = gathered"
      "storage (np_offset w') = prefix_offsets gathered numranks" by blast
  have "length (storage (np_offset w')) = numranks" by (simp add: w'(3) prefix_offsets_def)
  moreover have "storage (np_offset w') ! 0 = 0" using a(1) by (simp add: w'(3) prefix_offsets_nth)
  moreover have "\<forall>i. 0 < i \<and> i < numranks \<longrightarrow>
         storage (np_offset w') ! i =
           storage (np_offset w') ! (i - 1) + storage (np_count w') ! (i - 1)"
    using a(2) by (simp add: w'(2,3) prefix_offsets_step del: One_nat_def)
  moreover have "(\<forall>c\<in>set gathered. 0 \<le> sint c) \<and> sum_list (map sint gathered) < 2 ^ 31 \<longrightarrow>
         (\<forall>i. 0 < i \<and> i < numranks \<longrightarrow>
            sint (storage (np_offset w') ! (i - 1)) \<le> sint (storage (np_offset w') ! i))"
    using a(2) by (simp add: w'(3) prefix_offsets_mono del: One_nat_def)
  ultimately show ?thesis using w'(1,2) by blast
qed

lemma prefix_offsets_3_5: "prefix_offsets [3, 5] 2 = [0, 3]"
  by (simp add: prefix_offsets_def upt_rec numeral_2_eq_2)

theorem write_layout_prefix_sums_witness:
  "\<exists>w'. offset_exchange StorageBound 2 [3, 5] (setup_batch 2) = Inr w' \<and>
      storage (np_count w') = [3, 5] \<and>
      length (storage (np_offset w')) = 2 \<and>
      storage (np_offset w') ! 0 = 0 \<and>
      storage (np_offset w') ! 1 = storage (np_offset w') ! 0 + 3 \<and>
      sint (storage (np_offset w') ! 0) \<le> sint (storage (np_offset w') ! 1)"
proof -
  have h: "(0::nat) < 2" "length [3, 5 :: 32 word] = 2"
    "length (storage (np_count (setup_batch 2))) = 2"
    "length (storage (np_offset (setup_batch 2))) = 2"
    by (simp_all add: setup_batch_storage)
  have nn: "(\<forall>c\<in>set [3, 5 :: 32 word]. 0 \<le> sint c) \<and> sum_list (map sint [3, 5 :: 32 word]) < 2 ^ 31"
    by simp
  from write_layout_prefix_sums [OF h] obtain w' where
    w': "offset_exchange StorageBound 2 [3, 5] (setup_batch 2) = Inr w'"
      "storage (np_count w') = [3, 5]"
      "length (storage (np_offset w')) = 2"
      "storage (np_offset w') ! 0 = 0"
      "\<forall>i. 0 < i \<and> i < 2 \<longrightarrow>
         storage (np_offset w') ! i =
           storage (np_offset w') ! (i - 1) + storage (np_count w') ! (i - 1)"
      "(\<forall>c\<in>set [3, 5 :: 32 word]. 0 \<le> sint c) \<and> sum_list (map sint [3, 5 :: 32 word]) < 2 ^ 31 \<longrightarrow>
         (\<forall>i. 0 < i \<and> i < 2 \<longrightarrow>
            sint (storage (np_offset w') ! (i - 1)) \<le> sint (storage (np_offset w') ! i))"
    by blast
  have s1: "storage (np_offset w') ! 1 = storage (np_offset w') ! 0 + 3"
    using w'(5) [rule_format, of 1] w'(2) by simp
  have m1: "sint (storage (np_offset w') ! 0) \<le> sint (storage (np_offset w') ! 1)"
    using w'(6) nn by (metis One_nat_def diff_self_eq_0 one_less_numeral_iff semiring_norm(76) zero_less_one)
  show ?thesis using w'(1-4) s1 m1 by blast
qed

text \<open>
  The claim as stated fails where the running total leaves the range of \<^verbatim>\<open>int\<close>: three
  processes with the counts \<open>2147483647\<close>, \<open>1\<close> and \<open>0\<close> get the offsets \<open>0\<close>, \<open>2147483647\<close> and
  \<open>-2147483648\<close>.
\<close>

theorem write_layout_overflow_counterexample:
  "\<exists>w'. offset_exchange StorageBound 3 [2147483647, 1, 0] (setup_batch 3) = Inr w' \<and>
      map sint (storage (np_count w')) = [2147483647, 1, 0] \<and>
      map sint (storage (np_offset w')) = [0, 2147483647, - 2147483648] \<and>
      \<not> sint (storage (np_offset w') ! 1) \<le> sint (storage (np_offset w') ! 2)"
proof -
  have h: "(0::nat) < 3" "length [2147483647, 1, 0 :: 32 word] = 3"
    "length (storage (np_count (setup_batch 3))) = 3"
    "length (storage (np_offset (setup_batch 3))) = 3"
    by (simp_all add: setup_batch_storage)
  from offset_exchange_storage [OF h] obtain w' where
    w': "offset_exchange StorageBound 3 [2147483647, 1, 0] (setup_batch 3) = Inr w'"
      "storage (np_count w') = [2147483647, 1, 0]"
      "storage (np_offset w') = prefix_offsets [2147483647, 1, 0] 3" by blast
  have p: "prefix_offsets [2147483647, 1, 0 :: 32 word] 3 = [0, 2147483647, 2147483648]"
    by (simp add: prefix_offsets_def upt_3 numeral_2_eq_2)
  show ?thesis using w'(1) by (simp add: w'(2,3) p)
qed

text \<open>
  Claim C5.  Under the contract of \<^verbatim>\<open>operator[]\<close> the first indexed access of the exchange,
  \<^verbatim>\<open>w.np_offset[0] = 0\<close>, is out of range for every input: \<^verbatim>\<open>clear()\<close> has just set the size
  of the vector to zero.
\<close>

theorem offset_exchange_indexes_cleared_vector:
  "offset_exchange SizeBound numranks gathered w = Inl OutOfRange \<and>
   vsize (vec_clear (np_offset w)) = 0 \<and> vsize (vec_clear (np_count w)) = 0"
  by (simp add: offset_exchange_def Let_def vec_set_def index_bound_def vec_clear_def)

lemma setup_batch_in_range:
  "0 < numranks \<Longrightarrow> \<exists>v. vec_set SizeBound (np_offset (setup_batch numranks)) 0 0 = Inr v"
  by (simp add: vec_set_def index_bound_def setup_batch_storage)

section \<open>The parallel write (processLC.cpp 374-433)\<close>

text \<open>
  Files and write buffers are sequences of cells of four bytes: a \<^verbatim>\<open>float\<close>, an \<^verbatim>\<open>int\<close>, or one
  half of a 64-bit identifier (low half first, the byte order of the little-endian hosts
  the code runs on).  All byte offsets of the source are multiples of four.
\<close>

datatype cell = CFloat real | CInt "32 word"

definition id_cells :: "64 word \<Rightarrow> cell list" where
  "id_cells i = [CInt (ucast i), CInt (ucast (drop_bit 32 i))]"

datatype mpi_type = MPI_INT64_T | MPI_FLOAT

fun type_cells :: "mpi_type \<Rightarrow> nat" where
  "type_cells MPI_INT64_T = 2"
| "type_cells MPI_FLOAT = 1"

text \<open>
  One \<^verbatim>\<open>MPI_File_seek\<close> to a byte offset followed by one \<^verbatim>\<open>MPI_File_iwrite\<close> and its
  \<^verbatim>\<open>MPI_Wait\<close>: the file (named by its field; the directory and the step are those of the
  step being processed), the offset, the memory at the buffer pointer, the count and the
  element type.
\<close>

record write_req =
  wr_file :: string
  wr_offset :: "64 word"
  wr_buf :: "cell list"
  wr_count :: "32 word"
  wr_type :: mpi_type

definition float_req :: "string \<Rightarrow> 64 word \<Rightarrow> real list \<Rightarrow> write_req" where
  "float_req name off xs =
     \<lparr>wr_file = name, wr_offset = off, wr_buf = map CFloat xs,
      wr_count = word_of_nat (length xs), wr_type = MPI_FLOAT\<rparr>"

definition int_req :: "string \<Rightarrow> 64 word \<Rightarrow> 32 word list \<Rightarrow> write_req" where
  "int_req name off xs =
     \<lparr>wr_file = name, wr_offset = off, wr_buf = map CInt xs,
      wr_count = word_of_nat (length xs), wr_type = MPI_FLOAT\<rparr>"

definition id_req :: "64 word \<Rightarrow> 64 word list \<Rightarrow> mpi_type \<Rightarrow> write_req" where
  "id_req off ids ty =
     \<lparr>wr_file = ''id'', wr_offset = off, wr_buf = concat (map id_cells ids),
      wr_count = word_of_nat (length ids), wr_type = ty\<rparr>"

text \<open>
  The thirteen writes of one process in the order of the source (processLC.cpp 374-433
  and 841-900).  \<^verbatim>\<open>offset_posvel\<close> is \<^verbatim>\<open>sizeof(POSVEL_T) * w.np_offset[rank]\<close> and
  \<^verbatim>\<open>offset_id\<close> is \<^verbatim>\<open>sizeof(ID_T) * w.np_offset[rank]\<close>, computed in \<^verbatim>\<open>size_t\<close>.
\<close>

definition write_plan :: "indexing \<Rightarrow> nat \<Rightarrow> Buffers_write \<Rightarrow> error + write_req list" where
  "write_plan ix rank w =
     ebind (vec_get ix (np_offset w) rank) (\<lambda>off.
       let offset_posvel = 4 * scast off;
           offset_id = 8 * scast off
       in Inr [id_req offset_id (w_id w) MPI_INT64_T,
               float_req ''x'' offset_posvel (w_x w),
               float_req ''y'' offset_posvel (w_y w),
               float_req ''z'' offset_posvel (w_z w),
               float_req ''vx'' offset_posvel (w_vx w),
               float_req ''vy'' offset_posvel (w_vy w),
               float_req ''vz'' offset_posvel (w_vz w),
               float_req ''theta'' offset_posvel (w_theta w),
               float_req ''phi'' offset_posvel (w_phi w),
               float_req ''a'' offset_posvel (w_a w),
               id_req offset_posvel (w_id w) MPI_FLOAT,
               int_req ''rotation'' offset_posvel (w_rotation w),
               int_req ''replication'' offset_posvel (w_replication w)])"

text \<open>
  A file maps cell positions to cells; a position never written holds nothing.  A write
  stores \<open>count\<close> elements of the given type, taken from the start of the buffer, from the
  seek position on.
\<close>

type_synonym cellfile = "nat \<Rightarrow> cell option"

definition overwrite :: "cellfile \<Rightarrow> nat \<Rightarrow> cell list \<Rightarrow> cellfile" where
  "overwrite f off cs =
     (\<lambda>i. if off \<le> i \<and> i < off + length cs then Some (cs ! (i - off)) else f i)"

definition perform_write :: "write_req \<Rightarrow> (string \<Rightarrow> cellfile) \<Rightarrow> error + (string \<Rightarrow> cellfile)" where
  "perform_write q fs =
     (let off = sint (wr_offset q);
          cnt = sint (wr_count q);
          n = nat cnt * type_cells (wr_type q)
      in if off < 0 \<or> cnt < 0 then Inl MPIError
         else if length (wr_buf q) < n then Inl OutOfRange
         else Inr (fs (wr_file q := overwrite (fs (wr_file q)) (nat off div 4) (take n (wr_buf q)))))"

fun run_writes :: "write_req list \<Rightarrow> (string \<Rightarrow> cellfile) \<Rightarrow> error + (string \<Rightarrow> cellfile)" where
  "run_writes [] fs = Inr fs"
| "run_writes (q # qs) fs = ebind (perform_write q fs) (run_writes qs)"

text \<open>The files of a step's directory when the step begins: nothing written.\<close>

definition empty_files :: "string \<Rightarrow> cellfile" where
  "empty_files = (\<lambda>name i. None)"

text \<open>The file that holds exactly the given cells.\<close>

definition file_of :: "cell list \<Rightarrow> cellfile" where
  "file_of cs = (\<lambda>i. if i < length cs then Some (cs ! i) else None)"

section \<open>The process group\<close>

text \<open>All results of a list of fallible computations, or the first error.\<close>

fun collect :: "(error + 'a) list \<Rightarrow> error + 'a list" where
  "collect [] = Inr []"
| "collect (m # ms) = ebind m (\<lambda>v. ebind (collect ms) (\<lambda>vs. Inr (v # vs)))"

text \<open>
  The processes of the group run the same code on their own batch; the list index is
  the rank.  The all-gather delivers the \<open>cutout_size\<close> of every process to every process.
\<close>

definition group_exchange :: "indexing \<Rightarrow> Buffers_write list \<Rightarrow> error + Buffers_write list" where
  "group_exchange ix ws =
     collect (map (offset_exchange ix (length ws) (map cutout_size ws)) ws)"

definition group_plans :: "indexing \<Rightarrow> Buffers_write list \<Rightarrow> error + write_req list list" where
  "group_plans ix ws = collect (map (\<lambda>rank. write_plan ix rank (ws ! rank)) [0..<length ws])"

text \<open>The cells of a column of a batch, by the name of its file.\<close>

definition column_cells :: "string \<Rightarrow> Buffers_write \<Rightarrow> cell list" where
  "column_cells name w =
     (if name = ''x'' then map CFloat (w_x w)
      else if name = ''y'' then map CFloat (w_y w)
      else if name = ''z'' then map CFloat (w_z w)
      else if name = ''vx'' then map CFloat (w_vx w)
      else if name = ''vy'' then map CFloat (w_vy w)
      else if name = ''vz'' then map CFloat (w_vz w)
      else if name = ''a'' then map CFloat (w_a w)
      else if name = ''theta'' then map CFloat (w_theta w)
      else if name = ''phi'' then map CFloat (w_phi w)
      else if name = ''rotation'' then map CInt (w_rotation w)
      else if name = ''replication'' then map CInt (w_replication w)
      else if name = ''id'' then concat (map id_cells (w_id w))
      else [])"

definition float_fields :: "string list" where
  "float_fields = [''x'', ''y'', ''z'', ''vx'', ''vy'', ''vz'', ''a'', ''theta'', ''phi'',
                   ''rotation'', ''replication'']"

text \<open>All written columns of a batch have one length.\<close>

definition batch_ok :: "Buffers_write \<Rightarrow> bool" where
  "batch_ok w =
     (let n = length (w_a w)
      in length (w_x w) = n \<and> length (w_y w) = n \<and> length (w_z w) = n \<and>
         length (w_vx w) = n \<and> length (w_vy w) = n \<and> length (w_vz w) = n \<and>
         length (w_id w) = n \<and> length (w_rotation w) = n \<and> length (w_replication w) = n \<and>
         length (w_theta w) = n \<and> length (w_phi w) = n)"


lemma write_plan_id_requests:
  assumes "vec_get ix (np_offset w) rank = Inr off"
  shows "\<exists>plan. write_plan ix rank w = Inr plan \<and>
           filter (\<lambda>q. wr_file q = ''id'') plan =
             [id_req (8 * scast off) (w_id w) MPI_INT64_T, id_req (4 * scast off) (w_id w) MPI_FLOAT]"
  by (simp add: write_plan_def assms Let_def float_req_def int_req_def id_req_def)

lemma collect_map_Inr:
  "(\<And>x. x \<in> set xs \<Longrightarrow> f x = Inr (g x)) \<Longrightarrow> collect (map f xs) = Inr (map g xs)"
  by (induction xs) simp_all

text \<open>The batch after the exchange, written out.\<close>

definition exchanged :: "32 word list \<Rightarrow> Buffers_write \<Rightarrow> Buffers_write" where
  "exchanged gathered w =
     w\<lparr>np_count := \<lparr>storage = gathered, vsize = 0\<rparr>,
       np_offset := \<lparr>storage = prefix_offsets gathered (length gathered), vsize = 0\<rparr>\<rparr>"

lemma offset_exchange_explicit:
  assumes "0 < numranks" "length gathered = numranks"
    "length (storage (np_count w)) = numranks" "length (storage (np_offset w)) = numranks"
  shows "offset_exchange StorageBound numranks gathered w = Inr (exchanged gathered w)"
proof -
  from offset_exchange_storage [OF assms] obtain w' where
    w': "offset_exchange StorageBound numranks gathered w = Inr w'"
      "storage (np_count w') = gathered"
      "storage (np_offset w') = prefix_offsets gathered numranks"
      "vsize (np_count w') = 0" "vsize (np_offset w') = 0"
      "w' = w\<lparr>np_count := np_count w', np_offset := np_offset w'\<rparr>" by blast
  have c: "np_count w' = \<lparr>storage = gathered, vsize = 0\<rparr>" using w'(2,4) by simp
  have off: "np_offset w' = \<lparr>storage = prefix_offsets gathered numranks, vsize = 0\<rparr>"
    using w'(3,5) by simp
  have "w' = exchanged gathered w"
    unfolding exchanged_def assms(2) c [symmetric] off [symmetric] by (rule w'(6))
  then show ?thesis using w'(1) by simp
qed

definition capacity_ok :: "nat \<Rightarrow> Buffers_write \<Rightarrow> bool" where
  "capacity_ok numranks w =
     (length (storage (np_count w)) = numranks \<and> length (storage (np_offset w)) = numranks)"

lemma group_exchange_explicit:
  assumes "ws \<noteq> []" "list_all (capacity_ok (length ws)) ws"
  shows "group_exchange StorageBound ws = Inr (map (exchanged (map cutout_size ws)) ws)"
  unfolding group_exchange_def
proof (rule collect_map_Inr)
  fix w assume "w \<in> set ws"
  then have "capacity_ok (length ws) w" using assms(2) by (simp add: list_all_iff)
  then show "offset_exchange StorageBound (length ws) (map cutout_size ws) w =
        Inr (exchanged (map cutout_size ws) w)"
    using assms(1) by (intro offset_exchange_explicit) (simp_all add: capacity_ok_def)
qed

text \<open>The plan of a process after the exchange, written out.\<close>

definition plan_of :: "32 word \<Rightarrow> Buffers_write \<Rightarrow> write_req list" where
  "plan_of off w =
     [id_req (8 * scast off) (w_id w) MPI_INT64_T,
      float_req ''x'' (4 * scast off) (w_x w),
      float_req ''y'' (4 * scast off) (w_y w),
      float_req ''z'' (4 * scast off) (w_z w),
      float_req ''vx'' (4 * scast off) (w_vx w),
      float_req ''vy'' (4 * scast off) (w_vy w),
      float_req ''vz'' (4 * scast off) (w_vz w),
      float_req ''theta'' (4 * scast off) (w_theta w),
      float_req ''phi'' (4 * scast off) (w_phi w),
      float_req ''a'' (4 * scast off) (w_a w),
      id_req (4 * scast off) (w_id w) MPI_FLOAT,
      int_req ''rotation'' (4 * scast off) (w_rotation w),
      int_req ''replication'' (4 * scast off) (w_replication w)]"

lemma write_plan_exchanged:
  assumes "rank < length gathered"
  shows "write_plan StorageBound rank (exchanged gathered w) =
           Inr (plan_of (prefix_offsets gathered (length gathered) ! rank) w)"
  using assms
  by (simp add: write_plan_def vec_get_def index_bound_def exchanged_def prefix_offsets_def
      plan_of_def Let_def)

lemma group_plans_explicit:
  "group_plans StorageBound (map (exchanged (map cutout_size ws)) ws) =
     Inr (map (\<lambda>rank. plan_of (prefix_offsets (map cutout_size ws) (length ws) ! rank) (ws ! rank))
            [0..<length ws])"
  unfolding group_plans_def length_map
  by (rule collect_map_Inr) (simp add: write_plan_exchanged)

subsection \<open>Machine arithmetic of counts and offsets\<close>

lemma sint_word_of_nat_32: "n < 2 ^ 31 \<Longrightarrow> sint (word_of_nat n :: 32 word) = int n"
proof -
  assume a: "n < 2 ^ 31"
  have "sint (word_of_nat n :: 32 word) = signed_take_bit 31 (int n)"
    using sint_sbintrunc' [of "int n", where 'a = 32] by simp
  also have "\<dots> = int n"
    using a by (intro signed_take_bit_int_eq_self) simp_all
  finally show ?thesis .
qed

lemma sint_4_scast:
  fixes x :: "32 word"
  shows "sint (4 * scast x :: 64 word) = 4 * sint x"
proof -
  have s: "sint (scast x :: 64 word) = sint x" by (simp add: sint_up_scast is_up)
  have b: "- (2 ^ 31) \<le> sint x" "sint x < 2 ^ 31"
    using sint_ge [of x] sint_lt [of x] by simp_all
  have "sint (4 * scast x :: 64 word) = signed_take_bit 63 (4 * sint x)"
    by (simp add: sint_word_mult s)
  also have "\<dots> = 4 * sint x"
    using b by (intro signed_take_bit_int_eq_self) simp_all
  finally show ?thesis .
qed

lemma sint_8_scast:
  fixes x :: "32 word"
  shows "sint (8 * scast x :: 64 word) = 8 * sint x"
proof -
  have s: "sint (scast x :: 64 word) = sint x" by (simp add: sint_up_scast is_up)
  have b: "- (2 ^ 31) \<le> sint x" "sint x < 2 ^ 31"
    using sint_ge [of x] sint_lt [of x] by simp_all
  have "sint (8 * scast x :: 64 word) = signed_take_bit 63 (8 * sint x)"
    by (simp add: sint_word_mult s)
  also have "\<dots> = 8 * sint x"
    using b by (intro signed_take_bit_int_eq_self) simp_all
  finally show ?thesis .
qed

lemma sum_list_take_le_nat: "sum_list (take j (ns :: nat list)) \<le> sum_list ns"
  by (metis append_take_drop_id le_add1 sum_list_append)

lemma nth_le_sum_list: "j < length (ns :: nat list) \<Longrightarrow> ns ! j \<le> sum_list ns"
  by (simp add: member_le_sum_list)

text \<open>
  While the total of the counts is below \<open>2 ^ 31\<close>, the offset of a rank is the number of
  records of the lower ranks.
\<close>

lemma prefix_offsets_nat:
  fixes ns :: "nat list"
  assumes tot: "sum_list ns < 2 ^ 31" and j: "j < length ns"
  shows "sint (prefix_offsets (map word_of_nat ns) (length ns) ! j) = int (sum_list (take j ns))"
proof -
  let ?g = "map word_of_nat ns :: 32 word list"
  have each: "sint (word_of_nat n :: 32 word) = int n" if "n \<in> set (take j ns)" for n
  proof -
    have "n \<le> sum_list (take j ns)" using that by (simp add: member_le_sum_list)
    also have "\<dots> \<le> sum_list ns" by (rule sum_list_take_le_nat)
    finally show ?thesis using tot by (intro sint_word_of_nat_32) simp
  qed
  have m: "map sint (take j ?g) = map int (take j ns)"
    by (simp add: take_map each)
  have "sint (sum_list (take j ?g)) = sum_list (map sint (take j ?g))"
  proof (rule sint_sum_list)
    show "\<forall>c\<in>set (take j ?g). 0 \<le> sint c"
    proof
      fix c assume "c \<in> set (take j ?g)"
      then obtain n where "n \<in> set (take j ns)" "c = word_of_nat n" by (auto simp: take_map)
      then show "0 \<le> sint c" using each by simp
    qed
    have "sum_list (map int (take j ns)) = int (sum_list (take j ns))"
      by (simp add: sum_list_of_nat)
    also have "\<dots> < 2 ^ 31" using sum_list_take_le_nat [of j ns] tot by simp
    finally show "sum_list (map sint (take j ?g)) < 2 ^ 31" by (simp add: m)
  qed
  also have "\<dots> = int (sum_list (take j ns))" by (simp add: m sum_list_of_nat)
  finally show ?thesis using j by (simp add: prefix_offsets_nth)
qed

subsection \<open>Writes into one file\<close>

text \<open>A request is well-formed, the cells it stores, and where.\<close>

definition valid_req :: "write_req \<Rightarrow> bool" where
  "valid_req q =
     (0 \<le> sint (wr_offset q) \<and> 0 \<le> sint (wr_count q) \<and>
      nat (sint (wr_count q)) * type_cells (wr_type q) \<le> length (wr_buf q))"

definition seg_off :: "write_req \<Rightarrow> nat" where
  "seg_off q = nat (sint (wr_offset q)) div 4"

definition seg_cells :: "write_req \<Rightarrow> cell list" where
  "seg_cells q = take (nat (sint (wr_count q)) * type_cells (wr_type q)) (wr_buf q)"

definition covers :: "write_req \<Rightarrow> nat \<Rightarrow> bool" where
  "covers q i = (seg_off q \<le> i \<and> i < seg_off q + length (seg_cells q))"

definition store_req :: "write_req \<Rightarrow> (string \<Rightarrow> cellfile) \<Rightarrow> string \<Rightarrow> cellfile" where
  "store_req q fs = fs (wr_file q := overwrite (fs (wr_file q)) (seg_off q) (seg_cells q))"

lemma perform_write_valid: "valid_req q \<Longrightarrow> perform_write q fs = Inr (store_req q fs)"
  by (auto simp: perform_write_def valid_req_def store_req_def seg_off_def seg_cells_def Let_def)

lemma run_writes_valid:
  "list_all valid_req qs \<Longrightarrow> run_writes qs fs = Inr (fold store_req qs fs)"
  by (induction qs arbitrary: fs) (simp_all add: perform_write_valid)

lemma fold_store_req_file:
  "fold store_req qs fs name =
     fold (\<lambda>q g. overwrite g (seg_off q) (seg_cells q)) (filter (\<lambda>q. wr_file q = name) qs) (fs name)"
  by (induction qs arbitrary: fs) (simp_all add: store_req_def)

lemma fold_overwrite_miss:
  "\<forall>q\<in>set qs. \<not> covers q i \<Longrightarrow>
     fold (\<lambda>q g. overwrite g (seg_off q) (seg_cells q)) qs g i = g i"
  by (induction qs arbitrary: g) (auto simp: overwrite_def covers_def)

lemma fold_overwrite_hit:
  assumes "\<exists>q\<in>set qs. covers q i"
    and "\<forall>q\<in>set qs. covers q i \<longrightarrow> seg_cells q ! (i - seg_off q) = v"
  shows "fold (\<lambda>q g. overwrite g (seg_off q) (seg_cells q)) qs g i = Some v"
  using assms
proof (induction qs arbitrary: g)
  case Nil
  then show ?case by simp
next
  case (Cons a qs)
  show ?case
  proof (cases "\<exists>q\<in>set qs. covers q i")
    case True
    then show ?thesis using Cons.IH Cons.prems(2) by simp
  next
    case False
    then have a: "covers a i" using Cons.prems(1) by auto
    have "fold (\<lambda>q g. overwrite g (seg_off q) (seg_cells q)) qs
            (overwrite g (seg_off a) (seg_cells a)) i = overwrite g (seg_off a) (seg_cells a) i"
      using False by (intro fold_overwrite_miss) simp
    also have "\<dots> = Some (seg_cells a ! (i - seg_off a))"
      using a by (simp add: overwrite_def covers_def)
    also have "\<dots> = Some v" using a Cons.prems(2) by simp
    finally show ?thesis by simp
  qed
qed

subsection \<open>Concatenation and prefix sums\<close>

lemma concat_nth_segment:
  assumes "j < length xss" "t < length (xss ! j)"
  shows "concat xss ! (length (concat (take j xss)) + t) = xss ! j ! t"
proof -
  have "xss = take j xss @ (xss ! j) # drop (Suc j) xss"
    using assms(1) by (simp add: id_take_nth_drop)
  then have "concat xss = concat (take j xss) @ (xss ! j) @ concat (drop (Suc j) xss)"
    by (metis concat.simps(2) concat_append)
  then show ?thesis using assms(2) by (simp add: nth_append)
qed

lemma concat_take_Suc_le:
  assumes "j < length xss"
  shows "length (concat (take j xss)) + length (xss ! j) \<le> length (concat xss)"
proof -
  have "xss = take j xss @ (xss ! j) # drop (Suc j) xss"
    using assms(1) by (simp add: id_take_nth_drop)
  then have "concat xss = concat (take j xss) @ (xss ! j) @ concat (drop (Suc j) xss)"
    by (metis concat.simps(2) concat_append)
  then have "length (concat xss) =
      length (concat (take j xss)) + length (xss ! j) + length (concat (drop (Suc j) xss))"
    by (metis add.assoc length_append)
  then show ?thesis by simp
qed

lemma concat_index_segment:
  "i < length (concat xss) \<Longrightarrow>
     \<exists>j t. j < length xss \<and> t < length (xss ! j) \<and> i = length (concat (take j xss)) + t"
proof (induction xss arbitrary: i)
  case Nil
  then show ?case by simp
next
  case (Cons xs xss)
  show ?case
  proof (cases "i < length xs")
    case True
    then show ?thesis by (intro exI [of _ 0] exI [of _ i]) simp
  next
    case False
    then have "i - length xs < length (concat xss)" using Cons.prems by simp
    then obtain j t where jt: "j < length xss" "t < length (xss ! j)"
        "i - length xs = length (concat (take j xss)) + t"
      using Cons.IH by blast
    show ?thesis
      using jt False by (intro exI [of _ "Suc j"] exI [of _ t]) simp
  qed
qed

subsection \<open>The requests of a group\<close>

lemma valid_float_req:
  "0 \<le> sint off \<Longrightarrow> length xs < 2 ^ 31 \<Longrightarrow> valid_req (float_req name off xs)"
  by (simp add: valid_req_def float_req_def sint_word_of_nat_32)

lemma valid_int_req:
  "0 \<le> sint off \<Longrightarrow> length xs < 2 ^ 31 \<Longrightarrow> valid_req (int_req name off xs)"
  by (simp add: valid_req_def int_req_def sint_word_of_nat_32)

lemma length_id_cells: "length (concat (map id_cells ids)) = 2 * length ids"
  by (induction ids) (simp_all add: id_cells_def)

lemma valid_id_req:
  "0 \<le> sint off \<Longrightarrow> length ids < 2 ^ 31 \<Longrightarrow> valid_req (id_req off ids ty)"
  by (cases ty) (simp_all add: valid_req_def id_req_def sint_word_of_nat_32 length_id_cells)

lemma valid_plan_of:
  assumes "0 \<le> sint off" "batch_ok w" "length (w_a w) < 2 ^ 31"
  shows "list_all valid_req (plan_of off w)"
proof -
  have o4: "0 \<le> sint (4 * scast off :: 64 word)" using assms(1) by (simp add: sint_4_scast)
  have o8: "0 \<le> sint (8 * scast off :: 64 word)" using assms(1) by (simp add: sint_8_scast)
  show ?thesis
    using assms(2,3) o4 o8
    by (simp add: plan_of_def batch_ok_def Let_def valid_float_req valid_int_req valid_id_req)
qed

text \<open>The single request of a process to the file of a four-byte field.\<close>

definition field_req :: "string \<Rightarrow> 32 word \<Rightarrow> Buffers_write \<Rightarrow> write_req" where
  "field_req name off w =
     \<lparr>wr_file = name, wr_offset = 4 * scast off, wr_buf = column_cells name w,
      wr_count = word_of_nat (length (column_cells name w)), wr_type = MPI_FLOAT\<rparr>"

lemma plan_of_fields:
  "filter (\<lambda>q. wr_file q = ''x'') (plan_of off w) = [field_req ''x'' off w]"
  "filter (\<lambda>q. wr_file q = ''y'') (plan_of off w) = [field_req ''y'' off w]"
  "filter (\<lambda>q. wr_file q = ''z'') (plan_of off w) = [field_req ''z'' off w]"
  "filter (\<lambda>q. wr_file q = ''vx'') (plan_of off w) = [field_req ''vx'' off w]"
  "filter (\<lambda>q. wr_file q = ''vy'') (plan_of off w) = [field_req ''vy'' off w]"
  "filter (\<lambda>q. wr_file q = ''vz'') (plan_of off w) = [field_req ''vz'' off w]"
  "filter (\<lambda>q. wr_file q = ''a'') (plan_of off w) = [field_req ''a'' off w]"
  "filter (\<lambda>q. wr_file q = ''theta'') (plan_of off w) = [field_req ''theta'' off w]"
  "filter (\<lambda>q. wr_file q = ''phi'') (plan_of off w) = [field_req ''phi'' off w]"
  "filter (\<lambda>q. wr_file q = ''rotation'') (plan_of off w) = [field_req ''rotation'' off w]"
  "filter (\<lambda>q. wr_file q = ''replication'') (plan_of off w) = [field_req ''replication'' off w]"
  by (simp_all add: plan_of_def float_req_def int_req_def id_req_def column_cells_def field_req_def)

lemma plan_of_field:
  assumes "name \<in> set float_fields"
  shows "filter (\<lambda>q. wr_file q = name) (plan_of off w) = [field_req name off w]"
proof -
  from assms have "name = ''x'' \<or> name = ''y'' \<or> name = ''z'' \<or> name = ''vx'' \<or>
      name = ''vy'' \<or> name = ''vz'' \<or> name = ''a'' \<or> name = ''theta'' \<or> name = ''phi'' \<or>
      name = ''rotation'' \<or> name = ''replication''"
    unfolding float_fields_def by (simp only: set_simps insert_iff empty_iff simp_thms)
  then show ?thesis by (elim disjE) (simp_all only: plan_of_fields)
qed

lemma length_column_cells:
  assumes "name \<in> set float_fields" "batch_ok w"
  shows "length (column_cells name w) = length (w_a w)"
  using assms unfolding float_fields_def
  by (auto simp: column_cells_def batch_ok_def Let_def)

lemma filter_concat_map_single:
  "(\<And>x. x \<in> set xs \<Longrightarrow> filter P (f x) = [g x]) \<Longrightarrow> filter P (concat (map f xs)) = map g xs"
  by (induction xs) simp_all

lemma group_files_of_field:
  assumes ne: "ws \<noteq> []"
    and ok: "list_all batch_ok ws"
    and tot: "sum_list (map (\<lambda>w. length (w_a w)) ws) < 2 ^ 31"
    and plans: "plans = map (\<lambda>rank. plan_of (prefix_offsets (map cutout_size ws) (length ws) ! rank)
                                      (ws ! rank)) [0..<length ws]"
    and sched: "set sched = set (concat plans)"
    and name: "name \<in> set float_fields"
  shows "run_writes sched empty_files = Inr (fold store_req sched empty_files)"
    and "fold store_req sched empty_files name = file_of (concat (map (column_cells name) ws))"
proof -
  let ?n = "length ws"
  let ?lens = "map (\<lambda>w. length (w_a w)) ws"
  let ?g = "map cutout_size ws"
  let ?off = "\<lambda>j. prefix_offsets ?g ?n ! j"
  let ?cols = "map (column_cells name) ws"
  have g: "?g = map word_of_nat ?lens" by (simp add: cutout_size_def)
  have okj: "batch_ok (ws ! j)" if "j < ?n" for j
    using ok that by (simp add: list_all_length)
  have lenj: "length (w_a (ws ! j)) < 2 ^ 31" if "j < ?n" for j
  proof -
    have "?lens ! j \<le> sum_list ?lens" using that by (intro nth_le_sum_list) simp
    then show ?thesis using that tot by simp
  qed
  have offj: "sint (?off j) = int (sum_list (take j ?lens))" if "j < ?n" for j
    using prefix_offsets_nat [of ?lens j] tot that by (simp add: g)
  have lencols: "map length ?cols = ?lens"
    using ok name by (simp add: list_all_iff length_column_cells)
  have start: "length (concat (take j ?cols)) = sum_list (take j ?lens)" for j
    by (simp add: length_concat take_map [symmetric] lencols del: map_map)
  have valid: "list_all valid_req (concat plans)"
    unfolding plans list_all_iff
  proof
    fix q assume "q \<in> set (concat (map (\<lambda>rank. plan_of (?off rank) (ws ! rank)) [0..<?n]))"
    then obtain j where j: "j < ?n" "q \<in> set (plan_of (?off j) (ws ! j))" by auto
    have "list_all valid_req (plan_of (?off j) (ws ! j))"
    proof (rule valid_plan_of)
      show "0 \<le> sint (?off j)" using j(1) by (simp add: offj)
      show "batch_ok (ws ! j)" by (rule okj [OF j(1)])
      show "length (w_a (ws ! j)) < 2 ^ 31" by (rule lenj [OF j(1)])
    qed
    then show "valid_req q" using j(2) by (simp add: list_all_iff)
  qed
  have "list_all valid_req sched" using valid sched by (simp add: list_all_iff)
  then show "run_writes sched empty_files = Inr (fold store_req sched empty_files)"
    by (rule run_writes_valid)
  let ?reqs = "filter (\<lambda>q. wr_file q = name) sched"
  have reqs: "set ?reqs = (\<lambda>j. field_req name (?off j) (ws ! j)) ` {0..<?n}"
  proof -
    have "set ?reqs = set (filter (\<lambda>q. wr_file q = name) (concat plans))"
      using sched by simp
    also have "filter (\<lambda>q. wr_file q = name) (concat plans) =
        map (\<lambda>j. field_req name (?off j) (ws ! j)) [0..<?n]"
      unfolding plans by (rule filter_concat_map_single) (rule plan_of_field [OF name])
    finally show ?thesis by simp
  qed
  have so: "seg_off (field_req name (?off j) (ws ! j)) = length (concat (take j ?cols))"
    if "j < ?n" for j
    using that by (simp add: seg_off_def field_req_def sint_4_scast offj start)
  have sc: "seg_cells (field_req name (?off j) (ws ! j)) = ?cols ! j" if "j < ?n" for j
  proof -
    have "length (column_cells name (ws ! j)) < 2 ^ 31"
      using that lenj name okj by (simp add: length_column_cells)
    then show ?thesis using that by (simp add: seg_cells_def field_req_def sint_word_of_nat_32)
  qed
  have content: "fold store_req sched empty_files name i = file_of (concat ?cols) i" for i
  proof (cases "i < length (concat ?cols)")
    case True
    then obtain j t where jt: "j < length ?cols" "t < length (?cols ! j)"
        "i = length (concat (take j ?cols)) + t"
      using concat_index_segment by blast
    have j: "j < ?n" using jt(1) by simp
    have ex: "\<exists>q\<in>set ?reqs. covers q i"
    proof
      show "field_req name (?off j) (ws ! j) \<in> set ?reqs" unfolding reqs using j by simp
      show "covers (field_req name (?off j) (ws ! j)) i"
        using jt(2,3) by (simp add: covers_def so [OF j] sc [OF j])
    qed
    have all: "\<forall>q\<in>set ?reqs. covers q i \<longrightarrow> seg_cells q ! (i - seg_off q) = concat ?cols ! i"
    proof (intro ballI impI)
      fix q assume "q \<in> set ?reqs" and c: "covers q i"
      then have "q \<in> (\<lambda>j. field_req name (?off j) (ws ! j)) ` {0..<?n}" unfolding reqs by simp
      then obtain j' where j': "j' < ?n" "q = field_req name (?off j') (ws ! j')"
        by auto
      have b: "length (concat (take j' ?cols)) \<le> i"
              "i - length (concat (take j' ?cols)) < length (?cols ! j')"
        using c by (auto simp: covers_def j'(2) so [OF j'(1)] sc [OF j'(1)])
      have "concat ?cols ! (length (concat (take j' ?cols)) + (i - length (concat (take j' ?cols))))
              = ?cols ! j' ! (i - length (concat (take j' ?cols)))"
        using j'(1) b(2) by (intro concat_nth_segment) simp_all
      then show "seg_cells q ! (i - seg_off q) = concat ?cols ! i"
        using b(1) by (simp add: j'(2) so [OF j'(1)] sc [OF j'(1)])
    qed
    have "fold (\<lambda>q g. overwrite g (seg_off q) (seg_cells q)) ?reqs (empty_files name) i =
            Some (concat ?cols ! i)"
      using ex all by (rule fold_overwrite_hit)
    then show ?thesis using True by (simp add: fold_store_req_file file_of_def)
  next
    case False
    have none: "\<forall>q\<in>set ?reqs. \<not> covers q i"
    proof
      fix q assume "q \<in> set ?reqs"
      then have "q \<in> (\<lambda>j. field_req name (?off j) (ws ! j)) ` {0..<?n}" unfolding reqs .
      then obtain j' where j': "j' < ?n" "q = field_req name (?off j') (ws ! j')"
        by auto
      have "length (concat (take j' ?cols)) + length (?cols ! j') \<le> length (concat ?cols)"
        using j'(1) by (intro concat_take_Suc_le) simp
      then show "\<not> covers q i"
        using False by (simp add: covers_def j'(2) so [OF j'(1)] sc [OF j'(1)])
    qed
    have "fold (\<lambda>q g. overwrite g (seg_off q) (seg_cells q)) ?reqs (empty_files name) i =
            empty_files name i"
      using none by (rule fold_overwrite_miss)
    then show ?thesis using False by (simp add: fold_store_req_file file_of_def empty_files_def)
  qed
  show "fold store_req sched empty_files name = file_of (concat ?cols)"
    by (rule ext) (rule content)
qed

text \<open>The cells that a record of the partition contributes to a column.\<close>

definition record_cells :: "string \<Rightarrow> frame \<Rightarrow> Buffers_read \<Rightarrow> nat \<Rightarrow> cell list" where
  "record_cells name fr r n =
     (if name = ''x'' then [CFloat (r_x r ! n)]
      else if name = ''y'' then [CFloat (r_y r ! n)]
      else if name = ''z'' then [CFloat (r_z r ! n)]
      else if name = ''vx'' then [CFloat (r_vx r ! n)]
      else if name = ''vy'' then [CFloat (r_vy r ! n)]
      else if name = ''vz'' then [CFloat (r_vz r ! n)]
      else if name = ''a'' then [CFloat (r_a r ! n)]
      else if name = ''theta'' then [CFloat (the (derived_theta fr r n))]
      else if name = ''phi'' then [CFloat (the (derived_phi fr r n))]
      else if name = ''rotation'' then [CInt (r_rotation r ! n)]
      else if name = ''replication'' then [CInt (r_replication r ! n)]
      else if name = ''id'' then id_cells (r_id r ! n)
      else [])"

text \<open>Batches for the examples: every column filled, the identifiers given.\<close>

definition example_batch :: "nat \<Rightarrow> real list \<Rightarrow> 64 word list \<Rightarrow> Buffers_write" where
  "example_batch numranks xs ids =
     (setup_batch numranks)
       \<lparr>w_x := xs, w_y := xs, w_z := xs, w_vx := xs, w_vy := xs, w_vz := xs, w_a := xs,
        w_id := ids, w_rotation := map (\<lambda>x. 0) xs, w_replication := map (\<lambda>x. 0) xs,
        w_theta := xs, w_phi := xs\<rparr>"


lemma concat_map_single: "concat (map (\<lambda>n. [g n]) ns) = map g ns"
  by (induction ns) simp_all

lemma column_cells_append_records:
  "column_cells name (append_records fr r ns w) =
     column_cells name w @ concat (map (record_cells name fr r) ns)"
  by (simp add: column_cells_def record_cells_def [abs_def] append_records_def concat_map_single
      o_def)

lemma batch_ok_append_records: "batch_ok w \<Longrightarrow> batch_ok (append_records fr r ns w)"
  by (simp add: batch_ok_def append_records_def Let_def)

lemma capacity_ok_append_records:
  "capacity_ok n w \<Longrightarrow> capacity_ok n (append_records fr r ns w)"
  by (simp add: capacity_ok_def append_records_def)

lemma setup_batch_ok: "batch_ok (setup_batch n)" "capacity_ok n (setup_batch n)"
  by (simp_all add: batch_ok_def capacity_ok_def setup_batch_def empty_batch_def vec_resize_def
      empty_vec_def Let_def)

lemma example_batch_ok:
  "length ids = length xs \<Longrightarrow> batch_ok (example_batch n xs ids)"
  "capacity_ok n (example_batch n xs ids)"
  "w_a (example_batch n xs ids) = xs"
  "w_x (example_batch n xs ids) = xs"
  "w_id (example_batch n xs ids) = ids"
  using setup_batch_ok [of n]
  by (simp_all add: batch_ok_def capacity_ok_def example_batch_def Let_def)

lemma capacity_ok_exchanged: "capacity_ok (length g) (exchanged g w)"
  by (simp add: capacity_ok_def exchanged_def prefix_offsets_def)

lemma batch_ok_exchanged: "batch_ok (exchanged g w) = batch_ok w"
  by (simp add: batch_ok_def exchanged_def)

lemma plan_of_id:
  "filter (\<lambda>q. wr_file q = ''id'') (plan_of off w) =
     [id_req (8 * scast off) (w_id w) MPI_INT64_T, id_req (4 * scast off) (w_id w) MPI_FLOAT]"
  by (simp add: plan_of_def float_req_def int_req_def id_req_def)

lemma group_step_explicit:
  assumes "ws \<noteq> []" "list_all (capacity_ok (length ws)) ws"
  shows "group_exchange StorageBound ws = Inr (map (exchanged (map cutout_size ws)) ws)"
    and "group_plans StorageBound (map (exchanged (map cutout_size ws)) ws) =
           Inr (map (\<lambda>rank. plan_of (prefix_offsets (map cutout_size ws) (length ws) ! rank)
                                (ws ! rank)) [0..<length ws])"
  using assms by (simp_all add: group_exchange_explicit group_plans_explicit)

text \<open>
  Claim C6, as the code has it.  The filter loop is stable: in every column the cells of
  the selected records follow those already in the batch, in the order of the partition.
  And when every process writes its plan after the exchange, in whatever order the
  requests of the group are served, the file of every four-byte field holds the columns
  of the processes in rank order, provided the columns of each batch have one length and
  the total number of records is below \<open>2 ^ 31\<close>.  Nothing is said of the \<open>id\<close> file.
\<close>

theorem stable_filter_rank_major_files:
  "length theta_cut = 2 \<Longrightarrow> length phi_cut = 2 \<Longrightarrow> length k = 3 \<Longrightarrow>
   ws \<noteq> [] \<Longrightarrow> list_all batch_ok ws \<Longrightarrow> list_all (capacity_ok (length ws)) ws \<Longrightarrow>
   sum_list (map (\<lambda>w. length (w_a w)) ws) < 2 ^ 31 \<Longrightarrow>
   (\<exists>w'. cut_loop_fixed r theta_cut phi_cut Np w = Inr w' \<and>
         column_cells name w' =
           column_cells name w @
           concat (map (record_cells name Raw r)
                     (filter (selected Raw r theta_cut phi_cut) [0..<Np]))) \<and>
   (\<exists>w'. cut_loop_halo r k B theta_cut phi_cut Np w = Inr w' \<and>
         column_cells name w' =
           column_cells name w @
           concat (map (record_cells name (Rotated k B) r)
                     (filter (selected (Rotated k B) r theta_cut phi_cut) [0..<Np]))) \<and>
   (\<exists>ws' plans.
      group_exchange StorageBound ws = Inr ws' \<and> group_plans StorageBound ws' = Inr plans \<and>
      (\<forall>sched. set sched = set (concat plans) \<longrightarrow>
         (\<exists>fs. run_writes sched empty_files = Inr fs \<and>
               (\<forall>f\<in>set float_fields. fs f = file_of (concat (map (column_cells f) ws))))))"
proof (intro conjI)
  assume tc: "length theta_cut = 2" and pc: "length phi_cut = 2" and k: "length k = 3"
    and ne: "ws \<noteq> []" and ok: "list_all batch_ok ws"
    and cap: "list_all (capacity_ok (length ws)) ws"
    and tot: "sum_list (map (\<lambda>w. length (w_a w)) ws) < 2 ^ 31"
  have "cut_loop_fixed r theta_cut phi_cut Np w =
     Inr (append_records Raw r (filter (selected Raw r theta_cut phi_cut) [0..<Np]) w)"
    unfolding cut_loop_fixed_def
    by (rule cut_loop_filter) (rule cut_fixed_selected [OF tc pc])
  then show "\<exists>w'. cut_loop_fixed r theta_cut phi_cut Np w = Inr w' \<and>
         column_cells name w' =
           column_cells name w @
           concat (map (record_cells name Raw r)
                     (filter (selected Raw r theta_cut phi_cut) [0..<Np]))"
    by (simp add: column_cells_append_records)
  have "cut_loop_halo r k B theta_cut phi_cut Np w =
     Inr (append_records (Rotated k B) r
            (filter (selected (Rotated k B) r theta_cut phi_cut) [0..<Np]) w)"
    unfolding cut_loop_halo_def
    by (rule cut_loop_filter) (rule cut_halo_selected [OF tc pc k])
  then show "\<exists>w'. cut_loop_halo r k B theta_cut phi_cut Np w = Inr w' \<and>
         column_cells name w' =
           column_cells name w @
           concat (map (record_cells name (Rotated k B) r)
                     (filter (selected (Rotated k B) r theta_cut phi_cut) [0..<Np]))"
    by (simp add: column_cells_append_records)
  let ?plans = "map (\<lambda>rank. plan_of (prefix_offsets (map cutout_size ws) (length ws) ! rank)
                                (ws ! rank)) [0..<length ws]"
  have "\<forall>sched. set sched = set (concat ?plans) \<longrightarrow>
         (\<exists>fs. run_writes sched empty_files = Inr fs \<and>
               (\<forall>f\<in>set float_fields. fs f = file_of (concat (map (column_cells f) ws))))"
  proof (intro allI impI)
    fix sched assume s: "set sched = set (concat ?plans)"
    show "\<exists>fs. run_writes sched empty_files = Inr fs \<and>
               (\<forall>f\<in>set float_fields. fs f = file_of (concat (map (column_cells f) ws)))"
    proof (intro exI conjI ballI)
      show "run_writes sched empty_files = Inr (fold store_req sched empty_files)"
        by (rule group_files_of_field(1) [OF ne ok tot refl s, of "''x''"])
          (simp add: float_fields_def)
      fix f assume "f \<in> set float_fields"
      then show "fold store_req sched empty_files f = file_of (concat (map (column_cells f) ws))"
        by (rule group_files_of_field(2) [OF ne ok tot refl s])
    qed
  qed
  then show "\<exists>ws' plans.
      group_exchange StorageBound ws = Inr ws' \<and> group_plans StorageBound ws' = Inr plans \<and>
      (\<forall>sched. set sched = set (concat plans) \<longrightarrow>
         (\<exists>fs. run_writes sched empty_files = Inr fs \<and>
               (\<forall>f\<in>set float_fields. fs f = file_of (concat (map (column_cells f) ws)))))"
    using group_step_explicit [OF ne cap] by blast
qed

lemma example_batch_capacity_2 [simp]: "capacity_ok (Suc (Suc 0)) (example_batch 2 xs ids)"
  using example_batch_ok(2) [of 2 xs ids] by (simp add: numeral_2_eq_2)

lemma cutout_size_example_batch: "cutout_size (example_batch n xs ids) = word_of_nat (length xs)"
  by (simp add: cutout_size_def example_batch_ok)

lemma upt_2: "[0..<2] = [0, Suc 0]"
  by (simp add: upt_rec numeral_2_eq_2)

theorem stable_filter_rank_major_files_witness:
  "(\<exists>w'. cut_loop_fixed example_partition [0, 400000] [0, 324000] 2 empty_batch = Inr w' \<and>
         column_cells ''id'' w' = id_cells 7) \<and>
   (\<exists>ws' plans.
      group_exchange StorageBound
        [example_batch 2 [1, 2, 3] [11, 12, 13], example_batch 2 [4, 5, 6, 7, 8] [14, 15, 16, 17, 18]]
        = Inr ws' \<and>
      group_plans StorageBound ws' = Inr plans \<and>
      map (\<lambda>w. storage (np_count w)) ws' = [[3, 5], [3, 5]] \<and>
      map (\<lambda>w. storage (np_offset w)) ws' = [[0, 3], [0, 3]] \<and>
      (\<exists>fs. run_writes (concat plans) empty_files = Inr fs \<and>
            fs ''x'' = file_of (map CFloat [1, 2, 3, 4, 5, 6, 7, 8])))"
proof -
  let ?W = "[example_batch 2 [1, 2, 3] [11, 12, 13],
             example_batch 2 [4, 5, 6, 7, 8] [14, 15, 16, 17, 18]]"
  have h: "length [0, 400000 :: real] = 2" "length [0, 324000 :: real] = 2"
    "length [0, 0, 0 :: real] = 3" "?W \<noteq> []" "list_all batch_ok ?W"
    "list_all (capacity_ok (length ?W)) ?W"
    "sum_list (map (\<lambda>w. length (w_a w)) ?W) < 2 ^ 31"
    by (simp_all add: example_batch_ok)
  have s0: "selected Raw example_partition [0, 400000] [0, 324000] 0"
    by (simp add: selected_Raw_open_window example_partition_def)
  have s1: "\<not> selected Raw example_partition [0, 400000] [0, 324000] (Suc 0)"
    by (simp add: selected_Raw_open_window example_partition_def)
  note t = stable_filter_rank_major_files [OF h, where r = example_partition and Np = 2
      and w = empty_batch and name = "''id''" and B = 0]
  from t obtain w' where w': "cut_loop_fixed example_partition [0, 400000] [0, 324000] 2 empty_batch = Inr w'"
    "column_cells ''id'' w' =
           column_cells ''id'' empty_batch @
           concat (map (record_cells ''id'' Raw example_partition)
                     (filter (selected Raw example_partition [0, 400000] [0, 324000]) [0..<2]))"
    by blast
  have c: "column_cells ''id'' w' = id_cells 7"
    unfolding w'(2) upt_2 using s0 s1
    by (simp add: column_cells_def empty_batch_def record_cells_def example_partition_def)
  from t obtain ws' plans where g: "group_exchange StorageBound ?W = Inr ws'"
      "group_plans StorageBound ws' = Inr plans"
      "\<forall>sched. set sched = set (concat plans) \<longrightarrow>
         (\<exists>fs. run_writes sched empty_files = Inr fs \<and>
               (\<forall>f\<in>set float_fields. fs f = file_of (concat (map (column_cells f) ?W))))"
    by blast
  have e: "ws' = map (exchanged (map cutout_size ?W)) ?W"
    using g(1) group_step_explicit(1) [OF h(4,6)] by simp
  have cs: "map cutout_size ?W = [3, 5]" by (simp add: cutout_size_def example_batch_ok)
  have po: "prefix_offsets [3, 5 :: 32 word] (Suc (Suc 0)) = [0, 3]"
    using prefix_offsets_3_5 by (simp add: numeral_2_eq_2)
  have n: "map (\<lambda>w. storage (np_count w)) ws' = [[3, 5], [3, 5]]"
    "map (\<lambda>w. storage (np_offset w)) ws' = [[0, 3], [0, 3]]"
    unfolding e cs by (simp_all add: exchanged_def po)
  from g(3) obtain fs where fs: "run_writes (concat plans) empty_files = Inr fs"
    "\<forall>f\<in>set float_fields. fs f = file_of (concat (map (column_cells f) ?W))" by blast
  have "fs ''x'' = file_of (concat (map (column_cells ''x'') ?W))"
    using fs(2) by (simp add: float_fields_def)
  then have x: "fs ''x'' = file_of (map CFloat [1, 2, 3, 4, 5, 6, 7, 8])"
    by (simp add: column_cells_def example_batch_ok)
  have A: "\<exists>w'. cut_loop_fixed example_partition [0, 400000] [0, 324000] 2 empty_batch = Inr w' \<and>
         column_cells ''id'' w' = id_cells 7"
    by (rule exI, intro conjI, rule w'(1), rule c)
  have B: "\<exists>ws' plans.
      group_exchange StorageBound ?W = Inr ws' \<and>
      group_plans StorageBound ws' = Inr plans \<and>
      map (\<lambda>w. storage (np_count w)) ws' = [[3, 5], [3, 5]] \<and>
      map (\<lambda>w. storage (np_offset w)) ws' = [[0, 3], [0, 3]] \<and>
      (\<exists>fs. run_writes (concat plans) empty_files = Inr fs \<and>
            fs ''x'' = file_of (map CFloat [1, 2, 3, 4, 5, 6, 7, 8]))"
    by (rule exI, rule exI, intro conjI, rule g(1), rule g(2), rule n(1), rule n(2),
        rule exI, intro conjI, rule fs(1), rule x)
  show ?thesis using A B by (rule conjI)
qed

text \<open>
  The claim as stated fails in the \<open>id\<close> file.  Two processes hold one record each, with
  the identifiers 1 and 2.  After both plans have been carried out, rank 0 first, the file
  holds the cells \<open>1, 2, 2, 0\<close> where the rank-major order of the identifiers is
  \<open>1, 0, 2, 0\<close>: the second write of rank 1, typed \<^verbatim>\<open>MPI_FLOAT\<close> at the four-byte offset, has
  replaced the upper half of the identifier of rank 0.
\<close>

theorem id_file_counterexample:
  "\<exists>ws' plans fs.
     group_exchange StorageBound [example_batch 2 [1] [1], example_batch 2 [1] [2]] = Inr ws' \<and>
     group_plans StorageBound ws' = Inr plans \<and>
     run_writes (concat plans) empty_files = Inr fs \<and>
     fs ''id'' = file_of [CInt 1, CInt 2, CInt 2, CInt 0] \<and>
     concat (map (column_cells ''id'') [example_batch 2 [1] [1], example_batch 2 [1] [2]]) =
       [CInt 1, CInt 0, CInt 2, CInt 0] \<and>
     fs ''id'' \<noteq>
       file_of (concat (map (column_cells ''id'') [example_batch 2 [1] [1], example_batch 2 [1] [2]]))"
proof -
  let ?W = "[example_batch 2 [1] [1], example_batch 2 [1] [2]]"
  let ?plans = "map (\<lambda>rank. plan_of (prefix_offsets (map cutout_size ?W) (length ?W) ! rank)
                                (?W ! rank)) [0..<length ?W]"
  have h: "?W \<noteq> []" "list_all batch_ok ?W" "list_all (capacity_ok (length ?W)) ?W"
    "sum_list (map (\<lambda>w. length (w_a w)) ?W) < 2 ^ 31"
    by (simp_all add: example_batch_ok)
  note g = group_step_explicit [OF h(1,3)]
  have run: "run_writes (concat ?plans) empty_files = Inr (fold store_req (concat ?plans) empty_files)"
    by (rule group_files_of_field(1) [OF h(1,2,4) refl refl, of "''x''"]) (simp add: float_fields_def)
  have cs: "map cutout_size ?W = [1, 1]" by (simp add: cutout_size_def example_batch_ok)
  have po: "prefix_offsets [1, 1 :: 32 word] (Suc (Suc 0)) = [0, 1]"
    using upt_2 by (simp add: prefix_offsets_def numeral_2_eq_2)
  have ids: "filter (\<lambda>q. wr_file q = ''id'') (concat ?plans) =
      [id_req 0 [1] MPI_INT64_T, id_req 0 [1] MPI_FLOAT,
       id_req 8 [2] MPI_INT64_T, id_req 4 [2] MPI_FLOAT]"
    by (simp add: cutout_size_example_batch po upt_2 plan_of_id example_batch_ok)
  have so: "seg_off (id_req 0 [1] MPI_INT64_T) = 0" "seg_off (id_req 0 [1] MPI_FLOAT) = 0"
    "seg_off (id_req 8 [2] MPI_INT64_T) = 2" "seg_off (id_req 4 [2] MPI_FLOAT) = 1"
    by (simp_all add: seg_off_def id_req_def)
  have sc: "seg_cells (id_req 0 [1] MPI_INT64_T) = [CInt 1, CInt 0]"
    "seg_cells (id_req 0 [1] MPI_FLOAT) = [CInt 1]"
    "seg_cells (id_req 8 [2] MPI_INT64_T) = [CInt 2, CInt 0]"
    "seg_cells (id_req 4 [2] MPI_FLOAT) = [CInt 2]"
    by (simp_all add: seg_cells_def id_req_def id_cells_def)
  have content: "fold store_req (concat ?plans) empty_files ''id'' i =
      file_of [CInt 1, CInt 2, CInt 2, CInt 0] i" for i
  proof -
    have "i = 0 \<or> i = 1 \<or> i = 2 \<or> i = 3 \<or> 4 \<le> i" by arith
    then show ?thesis
      unfolding fold_store_req_file ids
      by (elim disjE) (simp_all add: so sc overwrite_def file_of_def empty_files_def)
  qed
  have f: "fold store_req (concat ?plans) empty_files ''id'' = file_of [CInt 1, CInt 2, CInt 2, CInt 0]"
    by (rule ext) (rule content)
  have exp: "concat (map (column_cells ''id'') ?W) = [CInt 1, CInt 0, CInt 2, CInt 0]"
    by (simp add: column_cells_def example_batch_ok id_cells_def)
  have ne: "file_of [CInt 1, CInt 2, CInt 2, CInt 0] \<noteq> file_of [CInt 1, CInt 0, CInt 2, CInt 0]"
  proof
    assume "file_of [CInt 1, CInt 2, CInt 2, CInt 0] = file_of [CInt 1, CInt 0, CInt 2, CInt 0]"
    then have "file_of [CInt 1, CInt 2, CInt 2, CInt 0] 1 = file_of [CInt 1, CInt 0, CInt 2, CInt 0] 1"
      by simp
    then show False by (simp add: file_of_def)
  qed
  have ne': "fold store_req (concat ?plans) empty_files ''id'' \<noteq>
       file_of (concat (map (column_cells ''id'') ?W))"
    unfolding f exp by (rule ne)
  show ?thesis
    by (rule exI, rule exI, rule exI, intro conjI, rule g(1), rule g(2), rule run, rule f,
        rule exp, rule ne')
qed

text \<open>
  Claim C2.  The plan of rank 1 in that group names the \<open>id\<close> file twice: first with the
  eight-byte type at byte offset \<open>8\<close>, then with \<^verbatim>\<open>MPI_FLOAT\<close> at byte offset \<open>4\<close>.
\<close>

theorem id_written_twice:
  "\<exists>ws' plans.
     group_exchange StorageBound [example_batch 2 [1] [1], example_batch 2 [1] [2]] = Inr ws' \<and>
     group_plans StorageBound ws' = Inr plans \<and>
     map (\<lambda>q. (wr_offset q, wr_type q, wr_count q))
         (filter (\<lambda>q. wr_file q = ''id'') (plans ! 1)) =
       [(8, MPI_INT64_T, 1), (4, MPI_FLOAT, 1)]"
proof -
  let ?W = "[example_batch 2 [1] [1], example_batch 2 [1] [2]]"
  have h: "?W \<noteq> []" "list_all (capacity_ok (length ?W)) ?W"
    by (simp_all add: example_batch_ok)
  note g = group_step_explicit [OF h]
  have cs: "map cutout_size ?W = [1, 1]" by (simp add: cutout_size_def example_batch_ok)
  have po: "prefix_offsets [1, 1 :: 32 word] (Suc (Suc 0)) = [0, 1]"
    using upt_2 by (simp add: prefix_offsets_def numeral_2_eq_2)
  let ?plans = "map (\<lambda>rank. plan_of (prefix_offsets (map cutout_size ?W) (length ?W) ! rank)
                                (?W ! rank)) [0..<length ?W]"
  have p: "map (\<lambda>q. (wr_offset q, wr_type q, wr_count q))
         (filter (\<lambda>q. wr_file q = ''id'') (?plans ! 1)) =
       [(8, MPI_INT64_T, 1), (4, MPI_FLOAT, 1)]"
    by (simp add: cutout_size_example_batch po upt_2 plan_of_id id_req_def example_batch_ok)
  show ?thesis
    by (rule exI, rule exI, intro conjI, rule g(1), rule g(2), rule p)
qed

section \<open>The step loop (processLC.cpp 98-447 and 556-914)\<close>

text \<open>
  \<^verbatim>\<open>atoi\<close>: white space is skipped, a sign is read, and the digits that follow make the
  number; no digits make 0.  A numeral beyond the range of \<^verbatim>\<open>int\<close> is undefined in C; the
  embedding keeps its value.
\<close>

definition isspace :: "char \<Rightarrow> bool" where
  "isspace c = (let n = of_char c :: nat in n = 32 \<or> (9 \<le> n \<and> n \<le> 13))"

definition isdigit :: "char \<Rightarrow> bool" where
  "isdigit c = (let n = of_char c :: nat in 48 \<le> n \<and> n \<le> 57)"

fun digits_value :: "int \<Rightarrow> string \<Rightarrow> int" where
  "digits_value acc [] = acc"
| "digits_value acc (c # cs) =
     (if isdigit c then digits_value (10 * acc + (int (of_char c) - 48)) cs else acc)"

definition atoi :: "string \<Rightarrow> int" where
  "atoi s =
     (case dropWhile isspace s of
        [] \<Rightarrow> 0
      | c # cs \<Rightarrow>
          if c = CHR ''-'' then - digits_value 0 cs
          else if c = CHR ''+'' then digits_value 0 cs
          else digits_value 0 (c # cs))"

text \<open>
  \<^verbatim>\<open>resize(Np)\<close> of the read buffers after the read (processLC.cpp 170-180): every column
  has \<open>Np\<close> entries afterwards.
\<close>

definition resize_list :: "nat \<Rightarrow> 'a::zero list \<Rightarrow> 'a list" where
  "resize_list n xs = take n xs @ replicate (n - length xs) 0"

definition resize_read :: "nat \<Rightarrow> Buffers_read \<Rightarrow> Buffers_read" where
  "resize_read Np r =
     \<lparr>r_x = resize_list Np (r_x r), r_y = resize_list Np (r_y r), r_z = resize_list Np (r_z r),
      r_vx = resize_list Np (r_vx r), r_vy = resize_list Np (r_vy r),
      r_vz = resize_list Np (r_vz r), r_a = resize_list Np (r_a r),
      r_id = resize_list Np (r_id r), r_step = resize_list Np (r_step r),
      r_rotation = resize_list Np (r_rotation r),
      r_replication = resize_list Np (r_replication r)\<rparr>"

text \<open>The two variants of \<^verbatim>\<open>processLC\<close> differ in the filter loop only.\<close>

datatype cutout_spec =
  FixedWindow "real list" "real list"
| HaloCentred "real list" real "real list" "real list"

definition filter_partition ::
  "cutout_spec \<Rightarrow> Buffers_read \<Rightarrow> nat \<Rightarrow> Buffers_write \<Rightarrow> error + Buffers_write" where
  "filter_partition spec r Np w =
     (case spec of
        FixedWindow theta_cut phi_cut \<Rightarrow> cut_loop_fixed r theta_cut phi_cut Np w
      | HaloCentred k B theta_cut phi_cut \<Rightarrow> cut_loop_halo r k B theta_cut phi_cut Np w)"

text \<open>
  What a step takes from outside: its string in \<^verbatim>\<open>step_strings\<close>, per rank the element count
  \<open>Np\<close> and the buffers as the reader filled them, and the number of entries that
  \<^verbatim>\<open>readdir\<close> finds in the output directory of the step (\<open>None\<close> when \<^verbatim>\<open>opendir\<close> fails).
\<close>

record step_input =
  si_string :: string
  si_data :: "(nat \<times> Buffers_read) list"
  si_dir :: "nat option"

text \<open>
  What a processed step leaves: the directory \<open>...Cutout<string>\<close> (created when it did not
  exist), whose files carry the step number, the counts announced to the all-gather, and
  the writes of every rank.
\<close>

record step_output =
  so_string :: string
  so_step :: int
  so_created :: bool
  so_counts :: "32 word list"
  so_plans :: "write_req list list"

text \<open>
  One pass of the body of the step loop after the test for step 499: the directory check
  (processLC.cpp 193-214), the filter loop of every rank on its batch \<open>w\<close>, the exchange and
  the writes.  The batches are those the previous pass left.
\<close>

definition process_step ::
  "indexing \<Rightarrow> cutout_spec \<Rightarrow> step_input \<Rightarrow> Buffers_write list \<Rightarrow>
   error + Buffers_write list \<times> step_output" where
  "process_step ix spec s ws =
     (if (case si_dir s of None \<Rightarrow> False | Some entries \<Rightarrow> 2 < entries) then Inl DirNonEmpty
      else
        ebind (collect (map (\<lambda>rank.
                 filter_partition spec
                   (resize_read (fst (si_data s ! rank)) (snd (si_data s ! rank)))
                   (fst (si_data s ! rank)) (ws ! rank)) [0..<length ws])) (\<lambda>ws1.
        ebind (group_exchange ix ws1) (\<lambda>ws2.
        ebind (group_plans ix ws2) (\<lambda>plans.
          Inr (ws2, \<lparr>so_string = si_string s, so_step = atoi (si_string s),
                     so_created = (si_dir s = None), so_counts = map cutout_size ws1,
                     so_plans = plans\<rparr>)))))"

fun process_steps ::
  "indexing \<Rightarrow> cutout_spec \<Rightarrow> step_input list \<Rightarrow> Buffers_write list \<Rightarrow>
   error + Buffers_write list \<times> step_output list" where
  "process_steps ix spec [] ws = Inr (ws, [])"
| "process_steps ix spec (s # ss) ws =
     (if atoi (si_string s) = 499 then process_steps ix spec ss ws
      else ebind (process_step ix spec s ws) (\<lambda>(ws', out).
           ebind (process_steps ix spec ss ws') (\<lambda>(ws'', outs). Inr (ws'', out # outs))))"

text \<open>
  The two variants for a group of \<open>numranks\<close> processes: the set-up, for the halo variant
  the rotation and the window, and the step loop.
\<close>

definition processLC_fixed ::
  "indexing \<Rightarrow> nat \<Rightarrow> real list \<Rightarrow> real list \<Rightarrow> step_input list \<Rightarrow>
   error + Buffers_write list \<times> step_output list" where
  "processLC_fixed ix numranks theta_cut phi_cut steps =
     process_steps ix (FixedWindow theta_cut phi_cut) steps (replicate numranks (setup_batch numranks))"

definition processLC_halo ::
  "indexing \<Rightarrow> nat \<Rightarrow> real list \<Rightarrow> real \<Rightarrow> step_input list \<Rightarrow>
   error + Buffers_write list \<times> step_output list" where
  "processLC_halo ix numranks halo_pos boxLength steps =
     (if length halo_pos < 3 then Inl OutOfRange
      else ebind (halo_axis halo_pos) (\<lambda>k.
           ebind (halo_angle halo_pos) (\<lambda>B.
           ebind (halo_window halo_pos boxLength) (\<lambda>(theta_cut, phi_cut).
             process_steps ix (HaloCentred k B theta_cut phi_cut) steps
               (replicate numranks (setup_batch numranks))))))"

definition empty_partition :: Buffers_read where
  "empty_partition =
     \<lparr>r_x = [], r_y = [], r_z = [], r_vx = [], r_vy = [], r_vz = [], r_a = [], r_id = [],
      r_step = [], r_rotation = [], r_replication = []\<rparr>"


lemma atoi_499: "atoi ''499'' = 499"
  by (simp add: atoi_def isspace_def isdigit_def)

lemma process_steps_skip:
  "process_steps ix spec steps ws =
     process_steps ix spec (filter (\<lambda>s. atoi (si_string s) \<noteq> 499) steps) ws"
proof (induction steps arbitrary: ws)
  case Nil
  then show ?case by simp
next
  case (Cons s ss)
  show ?case
  proof (cases "atoi (si_string s) = 499")
    case True
    then show ?thesis using Cons.IH by simp
  next
    case False
    have "\<And>ws'. process_steps ix spec ss ws' =
        process_steps ix spec (filter (\<lambda>s. atoi (si_string s) \<noteq> 499) ss) ws'"
      by (rule Cons.IH)
    then show ?thesis using False by simp
  qed
qed

lemma process_step_output:
  "process_step ix spec s ws = Inr (ws', out) \<Longrightarrow>
     so_step out = atoi (si_string s) \<and> so_string out = si_string s"
  by (auto simp: process_step_def ebind_def split: if_splits sum.splits)

lemma process_steps_outputs:
  "process_steps ix spec steps ws = Inr (ws', outs) \<Longrightarrow>
     list_all (\<lambda>out. so_step out \<noteq> 499) outs \<and>
     map so_string outs = map si_string (filter (\<lambda>s. atoi (si_string s) \<noteq> 499) steps)"
proof (induction steps arbitrary: ws ws' outs)
  case Nil
  then show ?case by simp
next
  case (Cons s ss)
  show ?case
  proof (cases "atoi (si_string s) = 499")
    case True
    then show ?thesis using Cons by simp
  next
    case False
    from Cons.prems False obtain w1 out w2 outs' where
      a: "process_step ix spec s ws = Inr (w1, out)"
      and b: "process_steps ix spec ss w1 = Inr (w2, outs')"
      and c: "outs = out # outs'"
      by (auto simp: ebind_def split: sum.splits prod.splits)
    show ?thesis
      using Cons.IH [OF b] process_step_output [OF a] False by (simp add: c)
  qed
qed

text \<open>
  Claim C8.  In both variants a step whose string reads as 499 is passed over by the step
  loop: the run is the run on the list without such steps, and no output of a finished run
  (no directory, no file, no write) belongs to step 499.
\<close>

theorem terminal_step_skipped:
  "processLC_fixed ix numranks theta_cut phi_cut steps =
     processLC_fixed ix numranks theta_cut phi_cut
       (filter (\<lambda>s. atoi (si_string s) \<noteq> 499) steps) \<and>
   processLC_halo ix numranks halo_pos boxLength steps =
     processLC_halo ix numranks halo_pos boxLength
       (filter (\<lambda>s. atoi (si_string s) \<noteq> 499) steps) \<and>
   (processLC_fixed ix numranks theta_cut phi_cut steps = Inr (ws', outs) \<longrightarrow>
      list_all (\<lambda>out. so_step out \<noteq> 499) outs \<and>
      map so_string outs = map si_string (filter (\<lambda>s. atoi (si_string s) \<noteq> 499) steps)) \<and>
   (processLC_halo ix numranks halo_pos boxLength steps = Inr (ws', outs) \<longrightarrow>
      list_all (\<lambda>out. so_step out \<noteq> 499) outs \<and>
      map so_string outs = map si_string (filter (\<lambda>s. atoi (si_string s) \<noteq> 499) steps)) \<and>
   atoi ''499'' = 499"
proof (intro conjI impI)
  show "processLC_fixed ix numranks theta_cut phi_cut steps =
     processLC_fixed ix numranks theta_cut phi_cut
       (filter (\<lambda>s. atoi (si_string s) \<noteq> 499) steps)"
    unfolding processLC_fixed_def by (rule process_steps_skip)
  show "processLC_halo ix numranks halo_pos boxLength steps =
     processLC_halo ix numranks halo_pos boxLength
       (filter (\<lambda>s. atoi (si_string s) \<noteq> 499) steps)"
    unfolding processLC_halo_def
    by (simp add: ebind_def process_steps_skip [of _ _ steps] split: sum.splits prod.splits)
  show "atoi ''499'' = 499" by (rule atoi_499)
next
  assume "processLC_fixed ix numranks theta_cut phi_cut steps = Inr (ws', outs)"
  then have "process_steps ix (FixedWindow theta_cut phi_cut) steps
      (replicate numranks (setup_batch numranks)) = Inr (ws', outs)"
    by (simp add: processLC_fixed_def)
  from process_steps_outputs [OF this]
  show "list_all (\<lambda>out. so_step out \<noteq> 499) outs"
    and "map so_string outs = map si_string (filter (\<lambda>s. atoi (si_string s) \<noteq> 499) steps)"
    by simp_all
next
  assume "processLC_halo ix numranks halo_pos boxLength steps = Inr (ws', outs)"
  then obtain k B theta_cut phi_cut where
    "process_steps ix (HaloCentred k B theta_cut phi_cut) steps
      (replicate numranks (setup_batch numranks)) = Inr (ws', outs)"
    by (auto simp: processLC_halo_def ebind_def split: if_splits sum.splits prod.splits)
  from process_steps_outputs [OF this]
  show "list_all (\<lambda>out. so_step out \<noteq> 499) outs"
    and "map so_string outs = map si_string (filter (\<lambda>s. atoi (si_string s) \<noteq> 499) steps)"
    by simp_all
qed

theorem terminal_step_skipped_witness:
  "processLC_fixed StorageBound 1 [0, 400000] [0, 324000]
     [\<lparr>si_string = ''499'', si_data = [(2, example_partition)], si_dir = None\<rparr>] =
     Inr ([setup_batch 1], []) \<and>
   processLC_halo StorageBound 1 [100, 0, 0] 2
     [\<lparr>si_string = ''499'', si_data = [(2, example_partition)], si_dir = None\<rparr>] =
     Inr ([setup_batch 1], [])"
proof -
  let ?s = "\<lparr>si_string = ''499'', si_data = [(2, example_partition)], si_dir = None\<rparr>"
  note t = terminal_step_skipped [where steps = "[?s]" and ix = StorageBound and numranks = 1
      and theta_cut = "[0, 400000]" and phi_cut = "[0, 324000]" and halo_pos = "[100, 0, 0]"
      and boxLength = 2]
  have f: "filter (\<lambda>s. atoi (si_string s) \<noteq> 499) [?s] = []" by (simp add: atoi_499)
  have r: "halo_r_of [100, 0, 0] = 100" by (simp add: halo_r_of_def)
  have w: "halo_window [100, 0, 0] 2 = Inr (spec_halo_window [100, 0, 0] 2)"
    by (rule halo_window_spec) (simp_all add: r)
  have a: "processLC_fixed StorageBound 1 [0, 400000] [0, 324000] [] = Inr ([setup_batch 1], [])"
    by (simp add: processLC_fixed_def)
  have b: "processLC_halo StorageBound 1 [100, 0, 0] 2 [] = Inr ([setup_batch 1], [])"
    by (simp add: processLC_halo_def halo_on_pole w split: prod.splits)
  show ?thesis using t a b unfolding f by simp
qed

subsection \<open>The batch is carried from step to step\<close>

lemma filter_partition_fixed:
  assumes "length theta_cut = 2" "length phi_cut = 2"
  shows "filter_partition (FixedWindow theta_cut phi_cut) r Np w =
     Inr (append_records Raw r (filter (selected Raw r theta_cut phi_cut) [0..<Np]) w)"
  unfolding filter_partition_def cutout_spec.case cut_loop_fixed_def
  by (rule cut_loop_filter) (rule cut_fixed_selected [OF assms])

lemma resize_list_same: "length xs = n \<Longrightarrow> resize_list n xs = xs"
  by (simp add: resize_list_def)

lemma resize_read_examples:
  "resize_read 2 example_partition = example_partition"
  "resize_read 0 empty_partition = empty_partition"
  by (simp_all add: resize_read_def example_partition_def empty_partition_def resize_list_same)

text \<open>
  Claim C3.  One process, two steps: the partition of step 498 has one record in the
  window, the partition of step 497 is empty.  The count announced in step 497 is 1, not
  0, and the \<open>x\<close> file of step 497 receives the record of step 498: the batch \<open>w\<close> is never
  emptied between the steps.
\<close>

theorem batch_carried_over:
  "\<exists>ws' outs.
     processLC_fixed StorageBound 1 [0, 400000] [0, 324000]
       [\<lparr>si_string = ''498'', si_data = [(2, example_partition)], si_dir = None\<rparr>,
        \<lparr>si_string = ''497'', si_data = [(0, empty_partition)], si_dir = None\<rparr>] = Inr (ws', outs) \<and>
     map so_step outs = [498, 497] \<and>
     map so_counts outs = [[1], [1]] \<and>
     filter (selected Raw (resize_read 0 empty_partition) [0, 400000] [0, 324000]) [0..<0] = [] \<and>
     map wr_buf (filter (\<lambda>q. wr_file q = ''x'') (so_plans (outs ! 1) ! 0)) = [[CFloat 1]]"
proof -
  let ?tc = "[0, 400000 :: real]" and ?pc = "[0, 324000 :: real]"
  let ?w1 = "append_records Raw example_partition [0] (setup_batch (Suc 0))"
  let ?w2 = "exchanged [1] ?w1"
  have s0: "selected Raw example_partition ?tc ?pc 0"
    by (simp add: selected_Raw_open_window example_partition_def)
  have s1: "\<not> selected Raw example_partition ?tc ?pc (Suc 0)"
    by (simp add: selected_Raw_open_window example_partition_def)
  have f1: "filter_partition (FixedWindow ?tc ?pc) example_partition 2 (setup_batch (Suc 0)) = Inr ?w1"
    using s0 s1 by (simp add: filter_partition_fixed upt_2)
  have f2: "filter_partition (FixedWindow ?tc ?pc) empty_partition 0 ?w2 = Inr ?w2"
    by (simp add: filter_partition_fixed)
  have c1: "cutout_size ?w1 = 1" "cutout_size ?w2 = 1"
    by (simp_all add: cutout_size_def append_records_def exchanged_def setup_batch_def empty_batch_def)
  have cap1: "list_all (capacity_ok (length [?w1])) [?w1]"
    using setup_batch_ok(2) [of "Suc 0"] by (simp add: capacity_ok_append_records)
  have cap2: "list_all (capacity_ok (length [?w2])) [?w2]"
    using capacity_ok_exchanged [of "[1]" ?w1] by simp
  have po: "prefix_offsets [1 :: 32 word] (Suc 0) = [0]"
    by (simp add: prefix_offsets_def)
  have g1: "group_exchange StorageBound [?w1] = Inr [?w2]"
    using group_step_explicit(1) [OF _ cap1] by (simp add: c1)
  have g2: "group_exchange StorageBound [?w2] = Inr [exchanged [1] ?w2]"
    using group_step_explicit(1) [OF _ cap2] by (simp add: c1)
  have p1: "group_plans StorageBound [?w2] = Inr [plan_of 0 ?w1]"
    using group_step_explicit(2) [of "[?w1]"] cap1 by (simp add: c1 po)
  have p2: "group_plans StorageBound [exchanged [1] ?w2] = Inr [plan_of 0 ?w2]"
    using group_step_explicit(2) [of "[?w2]"] cap2 by (simp add: c1 po)
  have a498: "atoi ''498'' = 498" and a497: "atoi ''497'' = 497"
    by (simp_all add: atoi_def isspace_def isdigit_def)
  let ?o1 = "\<lparr>so_string = ''498'', so_step = 498, so_created = True, so_counts = [1],
              so_plans = [plan_of 0 ?w1]\<rparr>"
  let ?o2 = "\<lparr>so_string = ''497'', so_step = 497, so_created = True, so_counts = [1],
              so_plans = [plan_of 0 ?w2]\<rparr>"
  have st1: "process_step StorageBound (FixedWindow ?tc ?pc)
      \<lparr>si_string = ''498'', si_data = [(2, example_partition)], si_dir = None\<rparr>
      [setup_batch (Suc 0)] = Inr ([?w2], ?o1)"
    by (simp add: process_step_def resize_read_examples f1 g1 p1 a498 c1)
  have st2: "process_step StorageBound (FixedWindow ?tc ?pc)
      \<lparr>si_string = ''497'', si_data = [(0, empty_partition)], si_dir = None\<rparr> [?w2]
      = Inr ([exchanged [1] ?w2], ?o2)"
    by (simp add: process_step_def resize_read_examples f2 g2 p2 a497 c1)
  have run: "processLC_fixed StorageBound 1 ?tc ?pc
       [\<lparr>si_string = ''498'', si_data = [(2, example_partition)], si_dir = None\<rparr>,
        \<lparr>si_string = ''497'', si_data = [(0, empty_partition)], si_dir = None\<rparr>]
       = Inr ([exchanged [1] ?w2], [?o1, ?o2])"
    by (simp add: processLC_fixed_def a498 a497 st1 st2)
  have x: "map wr_buf (filter (\<lambda>q. wr_file q = ''x'') (so_plans ([?o1, ?o2] ! 1) ! 0)) = [[CFloat 1]]"
    by (simp add: plan_of_fields field_req_def column_cells_def exchanged_def append_records_def
        setup_batch_def empty_batch_def example_partition_def)
  have steps: "map so_step [?o1, ?o2] = [498, 497]" by simp
  have counts: "map so_counts [?o1, ?o2] = [[1], [1]]" by simp
  have none: "filter (selected Raw (resize_read 0 empty_partition) ?tc ?pc) [0..<0] = []" by simp
  show ?thesis
    by (rule exI, rule exI, intro conjI, rule run, rule steps, rule counts, rule none, rule x)
qed

section \<open>The rotation set-up in single precision\<close>

text \<open>
  The machine computes with binary floating-point numbers: the significand of a \<^verbatim>\<open>float\<close> has
  24 bits, that of a \<^verbatim>\<open>double\<close> 53 bits, and an operation returns the exact result rounded
  to the nearest such number, a tie going to the even significand.  The numbers are kept
  as reals.  The range of the exponent is not modelled: there is no overflow and there
  are no subnormal numbers.

  \<open>round_even\<close> is the nearest integer, \<open>round_to prec\<close> the nearest number with \<open>prec\<close> bits.
\<close>

definition round_even :: "real \<Rightarrow> int" where
  "round_even x =
     (let f = \<lfloor>x\<rfloor>; d = x - of_int f
      in if d < 1 / 2 then f else if 1 / 2 < d then f + 1 else if even f then f else f + 1)"

definition round_to :: "nat \<Rightarrow> real \<Rightarrow> real" where
  "round_to prec x =
     (if x = 0 then 0
      else let e = \<lfloor>log 2 \<bar>x\<bar>\<rfloor> - int prec + 1
           in of_int (round_even (x / 2 powr of_int e)) * 2 powr of_int e)"

definition to_float :: "real \<Rightarrow> real" where
  "to_float x = round_to 24 x"

definition to_double :: "real \<Rightarrow> real" where
  "to_double x = round_to 53 x"

text \<open>
  \<^verbatim>\<open>std::inner_product\<close> with the initial value \<^verbatim>\<open>0.0\<close>, as \<^verbatim>\<open>vecPairAngle\<close> and \<^verbatim>\<open>normCross\<close>
  call it: the accumulator is a \<^verbatim>\<open>double\<close>, each product of two \<^verbatim>\<open>float\<close>s is a \<^verbatim>\<open>float\<close>.
\<close>

definition inner_product_sp :: "real list \<Rightarrow> real list \<Rightarrow> real \<Rightarrow> real" where
  "inner_product_sp xs ys init =
     foldl (\<lambda>acc (a, b). to_double (acc + to_float (a * b))) init (zip xs ys)"

text \<open>
  \<^verbatim>\<open>halo_r\<close> (processLC.cpp 506): products and sums of \<^verbatim>\<open>float\<close>s, and the square root of
  the \<^verbatim>\<open>float\<close> sum.
\<close>

definition halo_r_sp :: "real list \<Rightarrow> real" where
  "halo_r_sp halo_pos =
     to_float (sqrt (to_float (to_float (to_float (halo_pos ! 0 * halo_pos ! 0) +
                                           to_float (halo_pos ! 1 * halo_pos ! 1)) +
                                 to_float (halo_pos ! 2 * halo_pos ! 2))))"

text \<open>
  \<^verbatim>\<open>cross\<close>, \<^verbatim>\<open>normCross\<close>, \<^verbatim>\<open>vecPairAngle\<close> and \<^verbatim>\<open>dot\<close> (util.cpp) with the rounding of every
  operation.  The square roots of \<^verbatim>\<open>normCross\<close> and \<^verbatim>\<open>vecPairAngle\<close> are taken of a \<^verbatim>\<open>double\<close>
  and stored in a \<^verbatim>\<open>float\<close>.  In \<^verbatim>\<open>vecPairAngle\<close> a zero denominator and a quotient beyond
  \<open>1\<close> in magnitude make the angle a NaN, the result \<open>None\<close>.  \<^verbatim>\<open>acos\<close>, \<^verbatim>\<open>sin\<close> and \<^verbatim>\<open>cos\<close>
  are taken as correctly rounded; at the arguments \<open>1\<close> and \<open>0\<close>, where they are evaluated
  below, their values \<open>0\<close>, \<open>0\<close> and \<open>1\<close> are exact.
\<close>

definition cross_sp :: "real list \<Rightarrow> real list \<Rightarrow> error + real list" where
  "cross_sp v1 v2 =
     (if length v1 \<noteq> length v2 then Inl SizeMismatch
      else if length v1 < 3 then Inl OutOfRange
      else Inr [to_float (to_float (v1 ! 1 * v2 ! 2) - to_float (v1 ! 2 * v2 ! 1)),
                - to_float (to_float (v1 ! 0 * v2 ! 2) - to_float (v1 ! 2 * v2 ! 0)),
                to_float (to_float (v1 ! 0 * v2 ! 1) - to_float (v1 ! 1 * v2 ! 0))])"

definition normCross_sp :: "real list \<Rightarrow> real list \<Rightarrow> error + real list" where
  "normCross_sp a b =
     (if length a \<noteq> length b then Inl SizeMismatch
      else ebind (cross_sp a b) (\<lambda>axb.
        let mag_axb = to_float (to_double (sqrt (inner_product_sp axb axb 0)))
        in if mag_axb \<noteq> 0 \<and> 3 < length a then Inl OutOfRange
           else Inr (map (\<lambda>i. if mag_axb = 0 then 0 else to_float (axb ! i / mag_axb))
                         [0..<length a])))"

definition vecPairAngle_sp :: "real list \<Rightarrow> real list \<Rightarrow> error + real option" where
  "vecPairAngle_sp v1 v2 =
     (if length v2 < length v1 then Inl OutOfRange
      else let v1dv2 = to_float (inner_product_sp v1 v2 0);
               mag_v1 = to_float (to_double (sqrt (inner_product_sp v1 v1 0)));
               mag_v2 = to_float (to_double (sqrt (inner_product_sp v2 v2 0)));
               den = to_float (mag_v1 * mag_v2)
           in if den = 0 then Inr None
              else let q = to_float (v1dv2 / den)
                   in if 1 < \<bar>q\<bar> then Inr None else Inr (Some (to_float (arccos q))))"

definition dot_sp :: "real list \<Rightarrow> real list \<Rightarrow> error + real" where
  "dot_sp v1 v2 =
     (if length v1 \<noteq> length v2 then Inl SizeMismatch
      else Inr (foldl (\<lambda>d i. to_float (d + to_float (v1 ! i * v2 ! i))) 0 [0..<length v1]))"

text \<open>
  Modelled from the spec: \<^verbatim>\<open>rotate(k, B, v, v_rot)\<close>, whose body is not among the sources, with
  the formula of the spec evaluated from left to right in \<^verbatim>\<open>float\<close>.
\<close>

definition rotate_sp :: "real list \<Rightarrow> real \<Rightarrow> real list \<Rightarrow> error + real list" where
  "rotate_sp k B v =
     ebind (cross_sp k v) (\<lambda>kxv.
     ebind (dot_sp k v) (\<lambda>kdv.
       let c = to_float (cos B); s = to_float (sin B)
       in Inr (map (\<lambda>i. to_float (to_float (to_float (v ! i * c) + to_float (kxv ! i * s)) +
                                  to_float (to_float (k ! i * kdv) * to_float (1 - c))))
                   [0..<3])))"

text \<open>
  \<^verbatim>\<open>scalarMultiply\<close>, \<^verbatim>\<open>squareMat\<close>, \<^verbatim>\<open>matVecMul\<close> and \<^verbatim>\<open>rotation_matrix\<close> (util.cpp) with the
  rounding of every operation.  The diagonal of \<^verbatim>\<open>Rarr\<close> starts from the \<^verbatim>\<open>double\<close> \<^verbatim>\<open>1.0\<close>: its
  sums are those of \<^verbatim>\<open>double\<close>s, stored in a \<^verbatim>\<open>float\<close>.
\<close>

definition scalarMultiply_sp :: "real list list \<Rightarrow> real \<Rightarrow> error + real list list" where
  "scalarMultiply_sp matrix scalar =
     (if matrix = [] then Inl OutOfRange
      else let rows = length matrix; cols = length (matrix ! 0)
           in if list_all (\<lambda>row. cols \<le> length row) matrix
              then Inr (map (\<lambda>n. map (\<lambda>m. to_float (matrix ! n ! m * scalar)) [0..<cols]) [0..<rows])
              else Inl OutOfRange)"

definition squareMat_sp :: "real list list \<Rightarrow> error + real list list" where
  "squareMat_sp matrix =
     (if matrix = [] then Inl OutOfRange
      else let rows = length matrix; cols = length (matrix ! 0)
           in if list_all (\<lambda>row. cols \<le> length row \<and> rows \<le> length row) matrix
              then Inr (map (\<lambda>n. map (\<lambda>m.
                     foldl (\<lambda>acc y. to_float (acc + to_float (matrix ! n ! y * matrix ! y ! m))) 0
                       [0..<rows])
                     [0..<cols]) [0..<rows])
              else Inl OutOfRange)"

definition matVecMul_sp :: "real list list \<Rightarrow> real list \<Rightarrow> error + real list" where
  "matVecMul_sp matrix vec =
     (if matrix = [] then Inl OutOfRange
      else let vecSize = length vec; rows = length matrix; cols = length (matrix ! 0)
           in if vecSize \<noteq> rows then Inl DimMismatch
              else if list_all (\<lambda>row. cols \<le> length row) matrix \<and> cols \<le> vecSize
              then Inr (map (\<lambda>n. foldl (\<lambda>acc m. to_float (acc + to_float (matrix ! n ! m * vec ! m))) 0
                                     [0..<cols])
                            [0..<rows])
              else Inl OutOfRange)"

definition rotation_matrix_sp :: "real list list \<Rightarrow> real \<Rightarrow> error + real list list" where
  "rotation_matrix_sp K B =
     ebind (squareMat_sp K) (\<lambda>K2.
     ebind (scalarMultiply_sp K (to_float (sin B))) (\<lambda>Ksin.
     ebind (scalarMultiply_sp K2 (to_float (1 - to_float (cos B)))) (\<lambda>K2cos.
       if length Ksin < 3 \<or> length K2cos < 3 \<or> length (Ksin ! 0) < 3 then Inl OutOfRange
       else Inr
         [[to_float (to_double (to_double (1 + Ksin ! 0 ! 0) + K2cos ! 0 ! 0)),
           to_float (Ksin ! 0 ! 1 + K2cos ! 0 ! 1),
           to_float (Ksin ! 0 ! 2 + K2cos ! 0 ! 2)],
          [to_float (Ksin ! 1 ! 0 + K2cos ! 1 ! 0),
           to_float (to_double (to_double (1 + Ksin ! 1 ! 1) + K2cos ! 1 ! 1)),
           to_float (Ksin ! 1 ! 2 + K2cos ! 1 ! 2)],
          [to_float (Ksin ! 2 ! 0 + K2cos ! 2 ! 0),
           to_float (Ksin ! 2 ! 1 + K2cos ! 2 ! 1),
           to_float (to_double (to_double (1 + Ksin ! 2 ! 2) + K2cos ! 2 ! 2))]])))"

subsection \<open>Rounding of the numbers that occur\<close>

lemma round_even_of_int [simp]: "round_even (of_int n) = n"
  by (simp add: round_even_def)

lemma round_even_bounds:
  assumes "of_int a \<le> y" "y \<le> of_int b"
  shows "a \<le> round_even y" "round_even y \<le> b"
proof -
  have fl: "a \<le> \<lfloor>y\<rfloor>" using assms(1) by (simp add: le_floor_iff)
  have ge: "\<lfloor>y\<rfloor> \<le> round_even y" by (simp add: round_even_def Let_def)
  show "a \<le> round_even y" using fl ge by simp
  show "round_even y \<le> b"
  proof (cases "y = of_int b")
    case True
    then show ?thesis by simp
  next
    case False
    then have "y < of_int b" using assms(2) by simp
    then have "\<lfloor>y\<rfloor> < b" by (simp add: floor_less_iff)
    moreover have "round_even y \<le> \<lfloor>y\<rfloor> + 1" by (simp add: round_even_def Let_def)
    ultimately show ?thesis by simp
  qed
qed

lemma round_to_binade:
  assumes "2 powr of_int k \<le> \<bar>x\<bar>" "\<bar>x\<bar> < 2 powr of_int (k + 1)"
  shows "round_to prec x =
           of_int (round_even (x / 2 powr of_int (k - int prec + 1))) * 2 powr of_int (k - int prec + 1)"
proof -
  have "0 < (2::real) powr of_int k" by simp
  then have pos: "0 < \<bar>x\<bar>" using assms(1) by linarith
  then have nz: "x \<noteq> 0" by simp
  have "\<lfloor>log 2 \<bar>x\<bar>\<rfloor> = k"
    using assms pos by (simp add: floor_log_eq_powr_iff)
  then show ?thesis using nz by (simp add: round_to_def Let_def)
qed

lemma round_to_pow2:
  assumes "0 < prec"
  shows "round_to prec (2 powr of_int j) = 2 powr of_int j"
    and "round_to prec (- (2 powr of_int j)) = - (2 powr of_int j)"
proof -
  let ?e = "j - int prec + 1"
  have split: "2 powr of_int j = (2::real) powr of_int (int prec - 1) * 2 powr of_int ?e"
    by (simp flip: powr_add)
  have int: "(2::real) powr of_int (int prec - 1) = of_int (2 ^ (prec - 1))"
    using assms by (simp add: powr_realpow [symmetric] of_nat_diff)
  have q: "2 powr of_int j / 2 powr of_int ?e = (of_int (2 ^ (prec - 1)) :: real)"
    unfolding int [symmetric] by (simp flip: powr_diff)
  have lt: "(2::real) powr of_int j < 2 powr of_int (j + 1)" by simp
  have "round_to prec (2 powr of_int j) =
          of_int (round_even (2 powr of_int j / 2 powr of_int ?e)) * 2 powr of_int ?e"
    by (rule round_to_binade) (simp_all)
  also have "\<dots> = 2 powr of_int j"
    unfolding q round_even_of_int using split int by simp
  finally show "round_to prec (2 powr of_int j) = 2 powr of_int j" .
  have q': "- (2 powr of_int j) / 2 powr of_int ?e = (of_int (- (2 ^ (prec - 1))) :: real)"
    using q by simp
  have "round_to prec (- (2 powr of_int j)) =
          of_int (round_even (- (2 powr of_int j) / 2 powr of_int ?e)) * 2 powr of_int ?e"
    by (rule round_to_binade) (simp_all)
  also have "\<dots> = - (2 powr of_int j)"
    unfolding q' round_even_of_int using split int by simp
  finally show "round_to prec (- (2 powr of_int j)) = - (2 powr of_int j)" .
qed

lemma to_float_fixed [simp]:
  "to_float 0 = 0" "to_float 1 = 1" "to_float (- 1) = - 1"
  "to_float (1 / 8192) = 1 / 8192" "to_float (- (1 / 8192)) = - (1 / 8192)"
  "to_float (1 / 67108864) = 1 / 67108864"
proof -
  show "to_float 0 = 0" by (simp add: to_float_def round_to_def)
  show "to_float 1 = 1" using round_to_pow2(1) [of 24 0] by (simp add: to_float_def)
  show "to_float (- 1) = - 1" using round_to_pow2(2) [of 24 0] by (simp add: to_float_def)
  show "to_float (1 / 8192) = 1 / 8192"
    using round_to_pow2(1) [of 24 "- 13"] by (simp add: to_float_def powr_minus divide_simps)
  show "to_float (- (1 / 8192)) = - (1 / 8192)"
    using round_to_pow2(2) [of 24 "- 13"] by (simp add: to_float_def powr_minus divide_simps)
  show "to_float (1 / 67108864) = 1 / 67108864"
    using round_to_pow2(1) [of 24 "- 26"] by (simp add: to_float_def powr_minus divide_simps)
qed

lemma to_double_fixed [simp]:
  "to_double 0 = 0" "to_double 1 = 1"
  "to_double (1 / 8192) = 1 / 8192" "to_double (1 / 67108864) = 1 / 67108864"
proof -
  show "to_double 0 = 0" by (simp add: to_double_def round_to_def)
  show "to_double 1 = 1" using round_to_pow2(1) [of 53 0] by (simp add: to_double_def)
  show "to_double (1 / 8192) = 1 / 8192"
    using round_to_pow2(1) [of 53 "- 13"] by (simp add: to_double_def powr_minus divide_simps)
  show "to_double (1 / 67108864) = 1 / 67108864"
    using round_to_pow2(1) [of 53 "- 26"] by (simp add: to_double_def powr_minus divide_simps)
qed

lemma to_float_near_one:
  assumes "1 \<le> x" "x \<le> 1 + 1 / 67108864"
  shows "to_float x = 1"
proof -
  have b: "2 powr of_int 0 \<le> \<bar>x\<bar>" "\<bar>x\<bar> < 2 powr of_int (0 + 1)" using assms by simp_all
  have e: "2 powr of_int (0 - int 24 + 1) = (1 / 8388608 :: real)"
    by (simp add: powr_minus divide_simps)
  let ?y = "x / (1 / 8388608)"
  have y: "8388608 \<le> ?y" "?y \<le> 8388608 + 1 / 8" using assms by simp_all
  have fl: "\<lfloor>?y\<rfloor> = 8388608" using y by (simp add: floor_eq_iff)
  have "round_even ?y = 8388608"
    unfolding round_even_def Let_def fl using y by simp
  then show ?thesis
    unfolding to_float_def round_to_binade [OF b] e by simp
qed

lemma to_double_near_one:
  assumes "1 \<le> x" "x \<le> 1 + 1 / 67108864"
  shows "1 \<le> to_double x" "to_double x \<le> 1 + 1 / 67108864"
proof -
  have b: "2 powr of_int 0 \<le> \<bar>x\<bar>" "\<bar>x\<bar> < 2 powr of_int (0 + 1)" using assms by simp_all
  have e: "2 powr of_int (0 - int 53 + 1) = (1 / 4503599627370496 :: real)"
    by (simp add: powr_minus divide_simps)
  let ?y = "x / (1 / 4503599627370496)"
  have y: "of_int 4503599627370496 \<le> ?y" "?y \<le> of_int (4503599627370496 + 67108864)"
    using assms by simp_all
  note r = round_even_bounds [OF y]
  have d: "to_double x = of_int (round_even ?y) * (1 / 4503599627370496)"
    unfolding to_double_def round_to_binade [OF b] e by simp
  show "1 \<le> to_double x" using r(1) unfolding d by simp
  show "to_double x \<le> 1 + 1 / 67108864" using r(2) unfolding d by simp
qed

lemma to_double_one_eps [simp]: "to_double (1 + 1 / 67108864) = 1 + 1 / 67108864"
proof -
  let ?x = "1 + 1 / 67108864 :: real"
  have b: "2 powr of_int 0 \<le> \<bar>?x\<bar>" "\<bar>?x\<bar> < 2 powr of_int (0 + 1)" by simp_all
  have e: "2 powr of_int (0 - int 53 + 1) = (1 / 4503599627370496 :: real)"
    by (simp add: powr_minus divide_simps)
  have y: "?x / (1 / 4503599627370496) = of_int 4503599694479360" by simp
  show ?thesis
    unfolding to_double_def round_to_binade [OF b] e y round_even_of_int by simp
qed

lemma mag_near_pole:
  "to_float (to_double (sqrt (1 + 1 / 67108864))) = 1"
proof -
  let ?x = "1 + 1 / 67108864 :: real"
  have l: "1 \<le> sqrt ?x" by simp
  have u: "sqrt ?x \<le> ?x" by (rule real_le_lsqrt) (simp_all add: power2_eq_square)
  show ?thesis
    by (rule to_float_near_one) (rule to_double_near_one [OF l u])+
qed

lemma sqrt_pow2_26: "sqrt (1 / 67108864) = 1 / 8192"
  by (rule real_sqrt_unique) (simp_all add: power2_eq_square)

lemma mag_sp_near_pole:
  "to_float (to_double (sqrt (to_double (to_double (67108865 / 67108864))))) = 1"
proof -
  have "(67108865 / 67108864 :: real) = 1 + 1 / 67108864" by simp
  then show ?thesis by (simp only: to_double_one_eps mag_near_pole)
qed

subsection \<open>A halo close to the pole\<close>

lemma halo_r_sp_near_pole: "halo_r_sp [1, 1 / 8192, 0] = 1"
  by (simp add: halo_r_sp_def to_float_near_one)

lemma cross_sp_near_pole: "cross_sp [1, 1 / 8192, 0] [1, 0, 0] = Inr [0, 0, - (1 / 8192)]"
  by (simp add: cross_sp_def)

lemma normCross_sp_near_pole: "normCross_sp [1, 1 / 8192, 0] [1, 0, 0] = Inr [0, 0, - 1]"
  by (simp add: normCross_sp_def cross_sp_near_pole inner_product_sp_def sqrt_pow2_26 upt_3)

lemma vecPairAngle_sp_near_pole: "vecPairAngle_sp [1, 1 / 8192, 0] [1, 0, 0] = Inr (Some 0)"
  by (simp add: vecPairAngle_sp_def inner_product_sp_def mag_sp_near_pole Let_def)

lemma rotate_sp_near_pole: "rotate_sp [0, 0, - 1] 0 [1, 1 / 8192, 0] = Inr [1, 1 / 8192, 0]"
  by (simp add: rotate_sp_def cross_sp_def dot_sp_def upt_3 Let_def)

lemma rotation_matrix_sp_near_pole:
  "rotation_matrix_sp [[0, 1, 0], [- 1, 0, 0], [0, 0, 0]] 0 = Inr [[1, 0, 0], [0, 1, 0], [0, 0, 1]]"
  by (simp add: rotation_matrix_sp_def squareMat_sp_def scalarMultiply_sp_def upt_3)

lemma matVecMul_sp_near_pole:
  "matVecMul_sp [[1, 0, 0], [0, 1, 0], [0, 0, 1]] [1, 1 / 8192, 0] = Inr [1, 1 / 8192, 0]"
  by (simp add: matVecMul_sp_def upt_3)

lemma phi_near_pole:
  "\<exists>phi. sph_phi 1 (1 / 8192) = Some phi \<and> 25 < phi \<and> phi < 26"
proof -
  have l: "(1 / 8192) - (1 / 8192) ^ 3 / 3 \<le> arctan (1 / 8192 :: real)" by (rule arctan_lower) simp
  have u: "arctan (1 / 8192 :: real) \<le> (1 / 8192) - (1 / 8192) ^ 3 / 3 + (1 / 8192) ^ 5 / 5"
    by (rule arctan_upper) simp
  have e: "sph_phi 1 (1 / 8192) = Some (arctan (1 / 8192) * 180 / pi * 3600)"
    by (simp add: sph_phi_def atan_quot_def PI_def ARCSEC_def)
  have lo: "25 < arctan (1 / 8192) * 180 / pi * 3600"
    using l pi_bounds pi_gt_zero by (simp add: field_simps)
  have hi: "arctan (1 / 8192) * 180 / pi * 3600 < 26"
    using u pi_bounds pi_gt_zero by (simp add: field_simps)
  show ?thesis using e lo hi by simp
qed

subsection \<open>The rotation in exact arithmetic\<close>

text \<open>
  In exact arithmetic \<^verbatim>\<open>rotate\<close> with the computed axis and angle is the rotation the set-up
  aims at: for every halo position other than the origin it carries the halo onto the
  pole \<open>(halo_r, 0, 0)\<close> and keeps the length of every vector.
\<close>

lemma rotate_vec_unit:
  assumes "k1 * k1 + k2 * k2 + k3 * k3 = 1"
  shows "rotate_vec [k1, k2, k3] B [v1, v2, v3] =
           ebind (rotation_matrix [[0, - k3, k2], [k3, 0, - k1], [- k2, k1, 0]] B)
             (\<lambda>R. matVecMul R [v1, v2, v3])"
proof -
  define s c where "s = sin B" and "c = cos B"
  have 1: "v1 * c + (k2 * v3 - k3 * v2) * s + k1 * (k1 * v1 + k2 * v2 + k3 * v3) * (1 - c) =
           (1 + (1 - c) * (- (k3 * k3) - k2 * k2)) * v1 + (s * (- k3) + (1 - c) * (k1 * k2)) * v2 +
           (s * k2 + (1 - c) * (k1 * k3)) * v3"
    using assms by algebra
  have 2: "v2 * c + - (k1 * v3 - k3 * v1) * s + k2 * (k1 * v1 + k2 * v2 + k3 * v3) * (1 - c) =
           (s * k3 + (1 - c) * (k1 * k2)) * v1 + (1 + (1 - c) * (- (k3 * k3) - k1 * k1)) * v2 +
           (s * (- k1) + (1 - c) * (k2 * k3)) * v3"
    using assms by algebra
  have 3: "v3 * c + (k1 * v2 - k2 * v1) * s + k3 * (k1 * v1 + k2 * v2 + k3 * v3) * (1 - c) =
           (s * (- k2) + (1 - c) * (k1 * k3)) * v1 + (s * k1 + (1 - c) * (k2 * k3)) * v2 +
           (1 + (1 - c) * (- (k2 * k2) - k1 * k1)) * v3"
    using assms by algebra
  show ?thesis
    unfolding rotate_vec_3 rotation_matrix_K ebind_Inr matVecMul_3
    using 1 2 3 by (simp only: s_def c_def)
qed

lemma halo_axis_off_pole:
  assumes nz: "p2 \<noteq> 0 \<or> p3 \<noteq> 0"
  shows "halo_axis [p1, p2, p3] =
           Inr [0, p3 / sqrt (p2 * p2 + p3 * p3), - p2 / sqrt (p2 * p2 + p3 * p3)]"
    and "0 * 0 + p3 / sqrt (p2 * p2 + p3 * p3) * (p3 / sqrt (p2 * p2 + p3 * p3)) +
         - p2 / sqrt (p2 * p2 + p3 * p3) * (- p2 / sqrt (p2 * p2 + p3 * p3)) = 1"
proof -
  let ?r = "halo_r_of [p1, p2, p3]"
  define n where "n = sqrt (p2 * p2 + p3 * p3)"
  have "0 \<le> p2 * p2 + p3 * p3" by simp
  then have n2: "n * n = p2 * p2 + p3 * p3"
    unfolding n_def by (simp only: real_sqrt_mult_self abs_of_nonneg)
  have "p2 * p2 + p3 * p3 \<noteq> 0" using nz
    by (metis add_nonneg_eq_0_iff mult_eq_0_iff zero_le_square)
  then have npos: "0 < n" unfolding n_def by (simp add: less_le)
  have r0: "?r \<noteq> 0" using nz halo_r_zero_iff by blast
  then have rpos: "0 < ?r" using halo_r_nonneg [of "[p1, p2, p3]"] by simp
  have m: "sqrt (0 * 0 + p3 * ?r * (p3 * ?r) + - (p2 * ?r) * - (p2 * ?r)) = n * ?r"
  proof -
    have "0 * 0 + p3 * ?r * (p3 * ?r) + - (p2 * ?r) * - (p2 * ?r) = (n * ?r) * (n * ?r)"
      using n2 by algebra
    moreover have "0 \<le> n * ?r" using npos rpos by simp
    ultimately show ?thesis by (simp only: real_sqrt_abs2 abs_of_nonneg)
  qed
  have mnz: "n * ?r \<noteq> 0" using npos rpos by simp
  show "halo_axis [p1, p2, p3] =
           Inr [0, p3 / sqrt (p2 * p2 + p3 * p3), - p2 / sqrt (p2 * p2 + p3 * p3)]"
    unfolding halo_axis_3 m n_def [symmetric] using mnz rpos by simp
  have "0 * 0 + p3 / n * (p3 / n) + - p2 / n * (- p2 / n) = (p2 * p2 + p3 * p3) / (n * n)"
    by (simp add: add_divide_distrib)
  also have "\<dots> = 1" using n2 npos by (metis divide_self_if less_imp_neq mult_eq_0_iff)
  finally show "0 * 0 + p3 / sqrt (p2 * p2 + p3 * p3) * (p3 / sqrt (p2 * p2 + p3 * p3)) +
         - p2 / sqrt (p2 * p2 + p3 * p3) * (- p2 / sqrt (p2 * p2 + p3 * p3)) = 1"
    unfolding n_def .
qed

lemma rotate_vec_exact:
  assumes nz: "p1 \<noteq> 0 \<or> p2 \<noteq> 0 \<or> p3 \<noteq> 0"
  shows "\<exists>k B w. halo_axis [p1, p2, p3] = Inr k \<and> halo_angle [p1, p2, p3] = Inr B \<and>
           rotate_vec k B [p1, p2, p3] = Inr (rotated_pos_of [p1, p2, p3]) \<and>
           rotate_vec k B [v1, v2, v3] = Inr w \<and> length w = 3 \<and> mag3 w = mag3 [v1, v2, v3]"
proof (cases "p2 \<noteq> 0 \<or> p3 \<noteq> 0")
  case True
  let ?n = "sqrt (p2 * p2 + p3 * p3)"
  let ?k = "[0, p3 / ?n, - p2 / ?n]"
  note ax = halo_axis_off_pole(1) [OF True] halo_axis_off_pole(2) [OF True]
  obtain B where ang: "halo_angle [p1, p2, p3] = Inr B" using halo_angle_3 [OF nz] by blast
  have m: "halo_rotate_by_matrix [p1, p2, p3] v =
             ebind (rotation_matrix [[0, - (- p2 / ?n), p3 / ?n], [- p2 / ?n, 0, - 0], [- (p3 / ?n), 0, 0]] B)
               (\<lambda>R. matVecMul R v)" for v
    by (simp add: halo_rotate_by_matrix_def halo_rotation_matrix_def ax(1) ang)
  have rv: "rotate_vec ?k B [a, b, c] = halo_rotate_by_matrix [p1, p2, p3] [a, b, c]" for a b c
    unfolding m by (rule rotate_vec_unit) (rule ax(2))
  obtain w where w: "halo_rotate_by_matrix [p1, p2, p3] [v1, v2, v3] = Inr w" "length w = 3"
    "mag3 w = mag3 [v1, v2, v3]" using halo_rotation_norm [OF nz] by blast
  have "rotate_vec ?k B [p1, p2, p3] = Inr (rotated_pos_of [p1, p2, p3])"
    unfolding rv by (simp add: halo_rot_p [OF True] rotated_pos_of_def)
  moreover have "rotate_vec ?k B [v1, v2, v3] = Inr w" unfolding rv by (rule w(1))
  ultimately show ?thesis using ax(1) ang w(2,3) by blast
next
  case False
  then have p: "p2 = 0" "p3 = 0" "p1 \<noteq> 0" using nz by auto
  have r: "halo_r_of [p1, 0, 0] = \<bar>p1\<bar>" by (simp add: halo_r_of_def)
  have ax: "halo_axis [p1, 0, 0] = Inr [0, 0, 0]"
    by (simp add: halo_axis_def rotated_pos_of_def normCross_3)
  have ang: "halo_angle [p1, 0, 0] = Inr (arccos (p1 / \<bar>p1\<bar>))"
    using halo_angle_3 [of p1 0 0] p(3) by (simp add: r)
  have c: "cos (arccos (p1 / \<bar>p1\<bar>)) = p1 / \<bar>p1\<bar>"
    using p(3) by (simp add: cos_arccos_abs)
  have c2: "(p1 / \<bar>p1\<bar>) * (p1 / \<bar>p1\<bar>) = 1" using p(3) by (simp add: abs_mult_self_eq flip: times_divide_times_eq)
  have pr: "p1 * p1 / \<bar>p1\<bar> = \<bar>p1\<bar>" using p(3) by (cases "0 < p1") simp_all
  let ?c = "p1 / \<bar>p1\<bar>"
  have rot: "rotate_vec [0, 0, 0] (arccos ?c) [a, b, d] = Inr [a * ?c, b * ?c, d * ?c]" for a b d
    by (simp add: rotate_vec_3 c)
  have "(v1 * ?c) * (v1 * ?c) + (v2 * ?c) * (v2 * ?c) + (v3 * ?c) * (v3 * ?c) =
        (v1 * v1 + v2 * v2 + v3 * v3) * (?c * ?c)" by algebra
  then have mg: "mag3 [v1 * ?c, v2 * ?c, v3 * ?c] = mag3 [v1, v2, v3]"
    unfolding c2 by (simp add: mag3_def)
  have "rotate_vec [0, 0, 0] (arccos ?c) [p1, 0, 0] = Inr (rotated_pos_of [p1, 0, 0])"
    by (simp add: rot rotated_pos_of_def r pr)
  then show ?thesis using ax ang rot [of v1 v2 v3] mg unfolding p(1,2) by force
qed

text \<open>
  Claim C9.  The halo at \<open>(1, 1/8192, 0)\<close> lies 25 seconds of arc off the pole.  In single
  precision the set-up finds \<open>halo_r = 1\<close>, the axis \<open>(0, 0, -1)\<close> and, the quotient of
  \<^verbatim>\<open>vecPairAngle\<close> rounding to \<open>1\<close>, the angle \<open>0\<close>: \<^verbatim>\<open>rotate\<close> leaves the halo where it is, and so
  does the matrix of \<^verbatim>\<open>rotation_matrix\<close>, the identity.  In exact arithmetic the same
  set-up carries this halo onto the pole.
\<close>

theorem halo_near_pole_not_rotated:
  "halo_r_sp [1, 1 / 8192, 0] = 1 \<and>
   normCross_sp [1, 1 / 8192, 0] [1, 0, 0] = Inr [0, 0, - 1] \<and>
   vecPairAngle_sp [1, 1 / 8192, 0] [1, 0, 0] = Inr (Some 0) \<and>
   rotate_sp [0, 0, - 1] 0 [1, 1 / 8192, 0] = Inr [1, 1 / 8192, 0] \<and>
   cross_prod_matrix [0, 0, - 1] = Inr [[0, 1, 0], [- 1, 0, 0], [0, 0, 0]] \<and>
   rotation_matrix_sp [[0, 1, 0], [- 1, 0, 0], [0, 0, 0]] 0 = Inr [[1, 0, 0], [0, 1, 0], [0, 0, 1]] \<and>
   matVecMul_sp [[1, 0, 0], [0, 1, 0], [0, 0, 1]] [1, 1 / 8192, 0] = Inr [1, 1 / 8192, 0] \<and>
   (\<exists>phi. sph_phi 1 (1 / 8192) = Some phi \<and> 25 < phi \<and> phi < 26) \<and>
   sph_phi 1 0 = Some 0 \<and>
   (\<exists>k B. halo_axis [1, 1 / 8192, 0] = Inr k \<and> halo_angle [1, 1 / 8192, 0] = Inr B \<and>
          rotate_vec k B [1, 1 / 8192, 0] = Inr [halo_r_of [1, 1 / 8192, 0], 0, 0])"
proof (intro conjI)
  show "halo_r_sp [1, 1 / 8192, 0] = 1" by (rule halo_r_sp_near_pole)
  show "normCross_sp [1, 1 / 8192, 0] [1, 0, 0] = Inr [0, 0, - 1]" by (rule normCross_sp_near_pole)
  show "vecPairAngle_sp [1, 1 / 8192, 0] [1, 0, 0] = Inr (Some 0)" by (rule vecPairAngle_sp_near_pole)
  show "rotate_sp [0, 0, - 1] 0 [1, 1 / 8192, 0] = Inr [1, 1 / 8192, 0]" by (rule rotate_sp_near_pole)
  show "cross_prod_matrix [0, 0, - 1] = Inr [[0, 1, 0], [- 1, 0, 0], [0, 0, 0]]" by simp
  show "rotation_matrix_sp [[0, 1, 0], [- 1, 0, 0], [0, 0, 0]] 0 = Inr [[1, 0, 0], [0, 1, 0], [0, 0, 1]]"
    by (rule rotation_matrix_sp_near_pole)
  show "matVecMul_sp [[1, 0, 0], [0, 1, 0], [0, 0, 1]] [1, 1 / 8192, 0] = Inr [1, 1 / 8192, 0]"
    by (rule matVecMul_sp_near_pole)
  show "\<exists>phi. sph_phi 1 (1 / 8192) = Some phi \<and> 25 < phi \<and> phi < 26" by (rule phi_near_pole)
  show "sph_phi 1 0 = Some 0" by (simp add: sph_phi_def atan_quot_def)
  have nz: "(1::real) \<noteq> 0 \<or> (1 / 8192 :: real) \<noteq> 0 \<or> (0::real) \<noteq> 0" by simp
  from rotate_vec_exact [OF nz, of 1 "1 / 8192" 0]
  show "\<exists>k B. halo_axis [1, 1 / 8192, 0] = Inr k \<and> halo_angle [1, 1 / 8192, 0] = Inr B \<and>
          rotate_vec k B [1, 1 / 8192, 0] = Inr [halo_r_of [1, 1 / 8192, 0], 0, 0]"
    unfolding rotated_pos_of_def by blast
qed

end
